theory Spec2Isabelle
  imports Complex_Main "HOL-Library.Char_ord" "HOL-Library.List_Lexorder"
begin

section \<open>Data model\<close>

text \<open>
  \<^verbatim>\<open>interface Trait { type; name; weight; path; frames; rarity? }\<close>.
  A JavaScript \<^verbatim>\<open>number\<close> weight is modelled as an exact rational: folder weights are
  integers and conditional-rarity overrides are decimal fractions.
\<close>

record Trait =
  type :: string
  name :: string
  weight :: rat
  path :: string
  frames :: "string list"
  rarity :: "rat option"

datatype ErrorType =
  VALIDATION_ERROR | PROCESSING_ERROR | FILE_ERROR | CONFIG_ERROR
  | DUPLICATE_ERROR | MEMORY_ERROR | GPU_ERROR | WORKER_ERROR

text \<open>The \<^verbatim>\<open>context\<close> argument of an error is an object literal: a list of named flags.\<close>

type_synonym ErrorContext = "(string \<times> bool) list"

record GeneratorError =
  errType :: ErrorType
  message :: string
  errContext :: "ErrorContext option"
  recoverable :: bool

text \<open>
  \<^verbatim>\<open>constructor(type, message, context?, recoverable = false)\<close>: every \<^verbatim>\<open>new GeneratorError\<close>
  of the modelled code passes at most three arguments, so the fourth takes its default.
\<close>

definition newGeneratorError :: "ErrorType \<Rightarrow> string \<Rightarrow> ErrorContext option \<Rightarrow> GeneratorError" where
  "newGeneratorError t m c = \<lparr>errType = t, message = m, errContext = c, recoverable = False\<rparr>"

section \<open>LayerProcessor: frame normalisation\<close>

text \<open>
  \<^verbatim>\<open>loopFramesToRequiredCount\<close>. The first argument is \<^verbatim>\<open>this.requiredFrameCount\<close>.
  The loop pushes \<^verbatim>\<open>originalFrames[i % length]\<close> only when that string is truthy,
  that is, not the empty string.
\<close>

fun loopFrames :: "string list \<Rightarrow> nat \<Rightarrow> nat \<Rightarrow> string list \<Rightarrow> string list" where
  "loopFrames originalFrames i 0 loopedFrames = loopedFrames"
| "loopFrames originalFrames i (Suc n) loopedFrames =
     (let frameIndex = i mod length originalFrames;
          frame = originalFrames ! frameIndex
      in loopFrames originalFrames (Suc i) n
           (if frame \<noteq> [] then loopedFrames @ [frame] else loopedFrames))"

definition loopFramesToRequiredCount :: "nat \<Rightarrow> string list \<Rightarrow> string list" where
  "loopFramesToRequiredCount requiredFrameCount originalFrames =
     (if length originalFrames = 0 then []
      else if length originalFrames \<ge> requiredFrameCount
        then take requiredFrameCount originalFrames
      else loopFrames originalFrames 0 requiredFrameCount [])"

section \<open>TraitSelector: the weighted sampler\<close>

text \<open>
  \<^verbatim>\<open>Math.random()\<close> is a sequence of draws from \<open>[0, 1)\<close> and the position of the next
  draw; \<^verbatim>\<open>weightedRandomSelect\<close> returns the position it leaves behind. The sum, the
  product and the subtractions are exact here and in double precision in the code, so a
  draw within rounding distance of the boundary between two candidates may select the
  neighbour there. The statements below hold for whichever candidate is drawn, or
  evaluate draws away from a boundary, or concern weights that are all zero, where the
  double computation is exact as well.
\<close>

type_synonym MathRandom = "nat \<Rightarrow> rat"

text \<open>The \<^verbatim>\<open>for (const trait of traits)\<close> scan; \<open>None\<close> when the loop falls through.\<close>

fun scanWeights :: "rat \<Rightarrow> Trait list \<Rightarrow> Trait option" where
  "scanWeights random [] = None"
| "scanWeights random (trait # rest) =
     (let random' = random - weight trait
      in if random' \<le> 0 then Some trait else scanWeights random' rest)"

definition weightedRandomSelect ::
  "MathRandom \<Rightarrow> nat \<Rightarrow> Trait list \<Rightarrow> (GeneratorError + Trait) \<times> nat" where
  "weightedRandomSelect rnd k traits =
     (if length traits = 0 then
        (Inl (newGeneratorError PROCESSING_ERROR ''No traits available for selection'' None), k)
      else if length traits = 1 then (Inr (traits ! 0), k)
      else
        (let totalWeight = foldl (\<lambda>sum trait. sum + weight trait) 0 traits;
             random = rnd k * totalWeight
         in (case scanWeights random traits of
               Some trait \<Rightarrow> Inr trait
             | None \<Rightarrow> Inr (traits ! (length traits - 1)), Suc k)))"

section \<open>Strings\<close>

text \<open>
  \<^verbatim>\<open>String.prototype.split\<close> with a one-character separator: the result is never empty,
  so element 0 always exists.
\<close>

fun jsSplit :: "char \<Rightarrow> string \<Rightarrow> string list" where
  "jsSplit sep [] = [[]]"
| "jsSplit sep (c # cs) =
     (if c = sep then [] # jsSplit sep cs
      else (case jsSplit sep cs of
              p # ps \<Rightarrow> (c # p) # ps
            | [] \<Rightarrow> [[c]]))"

text \<open>
  \<^verbatim>\<open>String.prototype.trim\<close> over the ASCII white space: tab to carriage return, and space.
  The other characters \<^verbatim>\<open>trim\<close> strips (U+00A0, U+FEFF and the Unicode spaces) are not
  characters of a string here; on a name that begins or ends with one of them the keys
  of the code are shorter than the keys of the model.
\<close>

definition isSpace :: "char \<Rightarrow> bool" where
  "isSpace c = (c = CHR '' '' \<or> (9 \<le> (of_char c :: nat) \<and> (of_char c :: nat) \<le> 13))"

definition jsTrim :: "string \<Rightarrow> string" where
  "jsTrim s = rev (dropWhile isSpace (rev (dropWhile isSpace s)))"

text \<open>\<^verbatim>\<open>Array.prototype.join\<close>; \<^verbatim>\<open>String(array)\<close> is \<^verbatim>\<open>array.join(',')\<close>.\<close>

fun jsJoin :: "string \<Rightarrow> string list \<Rightarrow> string" where
  "jsJoin sep [] = []"
| "jsJoin sep [x] = x"
| "jsJoin sep (x # y # ys) = x @ sep @ jsJoin sep (y # ys)"

definition jsString :: "string list \<Rightarrow> string" where
  "jsString arr = jsJoin '','' arr"

section \<open>Configuration\<close>

text \<open>
  The rule tables of \<^verbatim>\<open>GeneratorConfig\<close>. A JavaScript object is an association list in
  the order of \<^verbatim>\<open>Object.entries\<close>, looked up with \<open>map_of\<close>; a table the code tests with
  \<^verbatim>\<open>!this.config.table\<close> is optional.
\<close>

record GeneratorConfig =
  trait_processing_order :: "string list"
  incompatible_traits :: "(string \<times> string list) list option"
  forced_pairings :: "(string \<times> string list) list option"
  dependent_traits :: "(string \<times> string) list option"
  exclusive_groups :: "(string \<times> string list) list option"
  conditional_rarity :: "(string \<times> (string \<times> rat) list) list option"

section \<open>LayerProcessor: the catalog\<close>

text \<open>
  One node of \<^verbatim>\<open>TraitHierarchy\<close>: \<^verbatim>\<open>{ weight, path, frames, subTraits? }\<close>.
\<close>

datatype TraitNode =
  TraitNode (nodeWeight: rat) (nodePath: string) (nodeFrames: "string list")
            (subTraits: "(string \<times> TraitNode) list option")

record ValidationResult =
  isValid :: bool
  errors :: "string list"
  warnings :: "string list"

text \<open>
  Arrays of traits are JavaScript objects that several variables may reference, and
  \<^verbatim>\<open>push\<close> changes them in place: they live in a store, addressed by position, and
  the caches hold addresses. Trait objects themselves are never written to (the
  conditional-rarity pass writes to a JSON clone), so they are values.
\<close>

type_synonym Heap = "Trait list list"

record LayerProcessor =
  validationResult :: "ValidationResult option"
  hierarchy :: "(string \<times> (string \<times> TraitNode) list) list"
  traitCache :: "string \<rightharpoonup> nat"

function collectLeafTraits :: "(string \<times> TraitNode) list \<Rightarrow> string \<Rightarrow> Trait list" where
  "collectLeafTraits [] traitType = []"
| "collectLeafTraits ((traitName, traitObj) # rest) traitType =
     (if nodeFrames traitObj \<noteq> [] then
        [\<lparr>type = traitType, name = traitName, weight = nodeWeight traitObj,
          path = nodePath traitObj, frames = nodeFrames traitObj, rarity = None\<rparr>]
      else (case subTraits traitObj of
              Some sub \<Rightarrow> collectLeafTraits sub traitType
            | None \<Rightarrow> []))
     @ collectLeafTraits rest traitType"
  by pat_completeness auto
termination
  apply (relation "measure (\<lambda>(entries, traitType). size_list (size_prod (\<lambda>_. 0) size) entries)")
    apply simp
   apply (case_tac traitObj; simp)
  apply simp
  done

definition getAvailableTraits ::
  "string \<Rightarrow> Heap \<times> LayerProcessor \<Rightarrow> (GeneratorError + nat) \<times> Heap \<times> LayerProcessor" where
  "getAvailableTraits traitType st =
     (case st of (h, lp) \<Rightarrow>
        (case traitCache lp traitType of
           Some ref \<Rightarrow> (Inr ref, h, lp)
         | None \<Rightarrow>
             if \<not> (case validationResult lp of Some v \<Rightarrow> isValid v | None \<Rightarrow> False) then
               (Inl (newGeneratorError VALIDATION_ERROR
                  ''Layer structure must be validated before getting available traits'' None),
                h, lp)
             else
               (case map_of (hierarchy lp) traitType of
                  None \<Rightarrow>
                    (Inr (length h), h @ [[]],
                     lp\<lparr>traitCache := (traitCache lp)(traitType \<mapsto> length h)\<rparr>)
                | Some traitTypeTraits \<Rightarrow>
                    (Inr (length h), h @ [collectLeafTraits traitTypeTraits traitType],
                     lp\<lparr>traitCache := (traitCache lp)(traitType \<mapsto> length h)\<rparr>))))"

section \<open>TraitSelector: keys\<close>

record TraitKeys =
  nameOnly :: string
  withType :: string

definition getTraitKeys :: "Trait \<Rightarrow> TraitKeys option" where
  "getTraitKeys trait =
     (let cleanName = jsTrim (hd (jsSplit CHR ''#'' (name trait)))
      in if cleanName = [] then None
         else Some \<lparr>nameOnly = cleanName, withType = type trait @ '':'' @ cleanName\<rparr>)"

definition getTraitNameFromConfigKey :: "string \<Rightarrow> string" where
  "getTraitNameFromConfigKey key =
     (let parts = jsSplit CHR '':'' key
      in if length parts > 1 then jsTrim (parts ! 1) else jsTrim (parts ! 0))"

text \<open>
  The test written three times in the source (forced pairings, dependent traits,
  conditional rarity): is the trait a configuration key names among the selected ones?
\<close>

definition triggerIsSelected :: "Trait list \<Rightarrow> string \<Rightarrow> bool" where
  "triggerIsSelected selectedTraits triggerKey =
     list_ex (\<lambda>t. case getTraitKeys t of
                None \<Rightarrow> False
              | Some keys \<Rightarrow> withType keys = triggerKey
                            \<or> nameOnly keys = getTraitNameFromConfigKey triggerKey)
       selectedTraits"

text \<open>The duplicate guard of forced pairings and dependent traits.\<close>

definition isAlreadySelected :: "Trait list \<Rightarrow> string \<Rightarrow> string \<Rightarrow> bool" where
  "isAlreadySelected selectedTraits fullKey bareName =
     list_ex (\<lambda>t. case getTraitKeys t of
                None \<Rightarrow> False
              | Some keys \<Rightarrow> withType keys = fullKey \<or> nameOnly keys = bareName)
       selectedTraits"

section \<open>TraitSelector: the rules\<close>

text \<open>
  \<^verbatim>\<open>table[k1] || table[k2]\<close>: an array, even an empty one, is truthy. The lookup finds the
  table's own keys. In the code \<^verbatim>\<open>table[key]\<close> also finds the members of
  \<^verbatim>\<open>Object.prototype\<close> (a trait named \<^verbatim>\<open>constructor\<close>); the call of \<^verbatim>\<open>includes\<close> on such a
  member then throws and the attempt is rejected. That path has no model: for such a
  name the model filters on where the code rejects the attempt.
\<close>

definition lookupEither :: "(string \<times> string list) list \<Rightarrow> string \<Rightarrow> string \<Rightarrow> string list option" where
  "lookupEither table k1 k2 =
     (case map_of table k1 of Some r \<Rightarrow> Some r | None \<Rightarrow> map_of table k2)"

definition applyIncompatibilityRules :: "GeneratorConfig \<Rightarrow> Trait list \<Rightarrow> Trait list \<Rightarrow> Trait list" where
  "applyIncompatibilityRules cfg availableTraits selectedTraits =
     (case incompatible_traits cfg of
        None \<Rightarrow> availableTraits
      | Some table \<Rightarrow>
          filter (\<lambda>trait.
            case getTraitKeys trait of
              None \<Rightarrow> True
            | Some traitKeys \<Rightarrow>
                \<not> list_ex (\<lambda>selected.
                    case getTraitKeys selected of
                      None \<Rightarrow> False
                    | Some selectedKeys \<Rightarrow>
                        (let selectedRules = lookupEither table (withType selectedKeys) (nameOnly selectedKeys);
                             availableRules = lookupEither table (withType traitKeys) (nameOnly traitKeys);
                             check1 = (case selectedRules of
                                         None \<Rightarrow> False
                                       | Some r \<Rightarrow> withType traitKeys \<in> set r \<or> nameOnly traitKeys \<in> set r);
                             check2 = (case availableRules of
                                         None \<Rightarrow> False
                                       | Some r \<Rightarrow> withType selectedKeys \<in> set r \<or> nameOnly selectedKeys \<in> set r)
                         in check1 \<or> check2))
                  selectedTraits)
            availableTraits)"

definition applyExclusiveGroupRules ::
  "GeneratorConfig \<Rightarrow> string \<Rightarrow> Trait list \<Rightarrow> Trait list \<Rightarrow> Trait list" where
  "applyExclusiveGroupRules cfg traitType availableTraits selectedTraits =
     (case exclusive_groups cfg of
        None \<Rightarrow> availableTraits
      | Some groups \<Rightarrow>
          (case find (\<lambda>entry. traitType \<in> set (snd entry)) groups of
             None \<Rightarrow> availableTraits
           | Some entry \<Rightarrow>
               (let group = snd entry;
                    selectedFromGroup =
                      list_ex (\<lambda>selected.
                          case getTraitKeys selected of
                            None \<Rightarrow> False
                          | Some keys \<Rightarrow> nameOnly keys \<in> set group \<or> withType keys \<in> set group)
                        selectedTraits
                in if selectedFromGroup then
                     filter (\<lambda>trait.
                         case getTraitKeys trait of
                           None \<Rightarrow> True
                         | Some keys \<Rightarrow> nameOnly keys \<notin> set group \<and> withType keys \<notin> set group)
                       availableTraits
                   else availableTraits)))"

text \<open>\<^verbatim>\<open>targetTrait.weight = newWeight\<close> on the first trait \<^verbatim>\<open>find\<close> returns.\<close>

fun updateFirst :: "('a \<Rightarrow> bool) \<Rightarrow> ('a \<Rightarrow> 'a) \<Rightarrow> 'a list \<Rightarrow> 'a list" where
  "updateFirst P f [] = []"
| "updateFirst P f (x # xs) = (if P x then f x # xs else x # updateFirst P f xs)"

text \<open>
  The inner loop over one condition's adjustments. \<^verbatim>\<open>[targetType, targetName] = key.split(':')\<close>
  leaves \<^verbatim>\<open>targetName\<close> undefined when the key has no colon.
\<close>

fun applyAdjustments :: "(string \<times> rat) list \<Rightarrow> Trait list \<Rightarrow> Trait list" where
  "applyAdjustments [] adjustedTraits = adjustedTraits"
| "applyAdjustments ((targetKey, newWeight) # rest) adjustedTraits =
     (let parts = jsSplit CHR '':'' targetKey;
          targetType = parts ! 0;
          targetName = (if length parts > 1 then Some (parts ! 1) else None)
      in applyAdjustments rest
           (updateFirst
              (\<lambda>trait. case getTraitKeys trait of
                 None \<Rightarrow> False
               | Some keys \<Rightarrow> withType keys = targetKey
                    \<or> (Some (nameOnly keys) = targetName \<and> type trait = targetType))
              (\<lambda>trait. trait\<lparr>weight := newWeight\<rparr>)
              adjustedTraits))"

fun applyConditions :: "(string \<times> (string \<times> rat) list) list \<Rightarrow> Trait list \<Rightarrow> Trait list \<Rightarrow> Trait list" where
  "applyConditions [] selectedTraits adjustedTraits = adjustedTraits"
| "applyConditions ((conditionKey, adjustments) # rest) selectedTraits adjustedTraits =
     applyConditions rest selectedTraits
       (if triggerIsSelected selectedTraits conditionKey
        then applyAdjustments adjustments adjustedTraits
        else adjustedTraits)"

text \<open>
  \<^verbatim>\<open>JSON.parse(JSON.stringify(availableTraits))\<close> yields fresh objects with the same field
  values; the result is a new list and the store is not an argument.
\<close>

definition applyConditionalRarity :: "GeneratorConfig \<Rightarrow> Trait list \<Rightarrow> Trait list \<Rightarrow> Trait list" where
  "applyConditionalRarity cfg availableTraits selectedTraits =
     (case conditional_rarity cfg of
        None \<Rightarrow> availableTraits
      | Some table \<Rightarrow> applyConditions table selectedTraits availableTraits)"

text \<open>
  \<^verbatim>\<open>applyForcedPairings\<close>: the loop over \<^verbatim>\<open>Object.entries(forced_pairings)\<close>, leaving at the
  first forced trait it resolves.
\<close>

fun forcedPairingsLoop ::
  "string \<Rightarrow> Trait list \<Rightarrow> (string \<times> string list) list \<Rightarrow> Heap \<times> LayerProcessor
   \<Rightarrow> (GeneratorError + Trait option) \<times> Heap \<times> LayerProcessor" where
  "forcedPairingsLoop traitType selectedTraits [] st = (Inr None, st)"
| "forcedPairingsLoop traitType selectedTraits ((triggerKey, forcedKey) # rest) st =
     (if triggerIsSelected selectedTraits triggerKey then
        (let forcedParts = jsSplit CHR '':'' (jsString forcedKey);
             forcedType = forcedParts ! 0;
             forcedName = (if length forcedParts > 1 then forcedParts ! 1 else forcedParts ! 0)
         in if forcedType = traitType then
              if \<not> isAlreadySelected selectedTraits (jsString forcedKey) forcedName then
                (case getAvailableTraits traitType st of
                   (Inl e, st') \<Rightarrow> (Inl e, st')
                 | (Inr ref, h', lp') \<Rightarrow>
                     (case find (\<lambda>t. hd (jsSplit CHR ''#'' (name t)) = forcedName) (h' ! ref) of
                        Some forcedTrait \<Rightarrow> (Inr (Some forcedTrait), h', lp')
                      | None \<Rightarrow> forcedPairingsLoop traitType selectedTraits rest (h', lp')))
              else forcedPairingsLoop traitType selectedTraits rest st
            else forcedPairingsLoop traitType selectedTraits rest st)
      else forcedPairingsLoop traitType selectedTraits rest st)"

definition applyForcedPairings ::
  "GeneratorConfig \<Rightarrow> string \<Rightarrow> Trait list \<Rightarrow> Heap \<times> LayerProcessor
   \<Rightarrow> (GeneratorError + Trait option) \<times> Heap \<times> LayerProcessor" where
  "applyForcedPairings cfg traitType selectedTraits st =
     (case forced_pairings cfg of
        None \<Rightarrow> (Inr None, st)
      | Some table \<Rightarrow> forcedPairingsLoop traitType selectedTraits table st)"

text \<open>
  \<^verbatim>\<open>applyDependentTraits\<close>. The fourth argument is the function's result list, the outer
  \<^verbatim>\<open>const dependentTraits\<close>. Inside the \<^verbatim>\<open>if (!isAlreadySelected)\<close> block the source
  declares a second \<^verbatim>\<open>const dependentTraits\<close>, the array \<^verbatim>\<open>getAvailableTraits\<close> returns, and
  \<^verbatim>\<open>dependentTraits.push(dependentTrait)\<close> there appends to that array, at address \<open>ref\<close>.
\<close>

fun dependentTraitsLoop ::
  "Trait list \<Rightarrow> (string \<times> string) list \<Rightarrow> Trait list \<Rightarrow> Heap \<times> LayerProcessor
   \<Rightarrow> (GeneratorError + Trait list) \<times> Heap \<times> LayerProcessor" where
  "dependentTraitsLoop selectedTraits [] dependentTraits st = (Inr dependentTraits, st)"
| "dependentTraitsLoop selectedTraits ((triggerKey, dependentKey) # rest) dependentTraits st =
     (if triggerIsSelected selectedTraits triggerKey then
        (let dependentParts = jsSplit CHR '':'' dependentKey;
             dependentType = dependentParts ! 0;
             dependentName = (if length dependentParts > 1 then dependentParts ! 1
                              else dependentParts ! 0)
         in if \<not> isAlreadySelected selectedTraits dependentKey dependentName then
              (case getAvailableTraits dependentType st of
                 (Inl e, st') \<Rightarrow> (Inl e, st')
               | (Inr ref, h', lp') \<Rightarrow>
                   (case find (\<lambda>t. hd (jsSplit CHR ''#'' (name t)) = dependentName) (h' ! ref) of
                      Some dependentTrait \<Rightarrow>
                        dependentTraitsLoop selectedTraits rest dependentTraits
                          (h'[ref := h' ! ref @ [dependentTrait]], lp')
                    | None \<Rightarrow> dependentTraitsLoop selectedTraits rest dependentTraits (h', lp')))
            else dependentTraitsLoop selectedTraits rest dependentTraits st)
      else dependentTraitsLoop selectedTraits rest dependentTraits st)"

definition applyDependentTraits ::
  "GeneratorConfig \<Rightarrow> Trait list \<Rightarrow> Heap \<times> LayerProcessor
   \<Rightarrow> (GeneratorError + Trait list) \<times> Heap \<times> LayerProcessor" where
  "applyDependentTraits cfg selectedTraits st =
     (case dependent_traits cfg of
        None \<Rightarrow> (Inr [], st)
      | Some table \<Rightarrow> dependentTraitsLoop selectedTraits table [] st)"

section \<open>TraitSelector: one attempt\<close>

text \<open>
  \<^verbatim>\<open>TraitCombination\<close>, without the fields no rule reads back: \<^verbatim>\<open>rarity\<close>, \<^verbatim>\<open>metadata\<close> and
  \<^verbatim>\<open>generatedAt\<close> are computed from \<^verbatim>\<open>id\<close> and \<^verbatim>\<open>traits\<close> when the combination is created.
  The field \<^verbatim>\<open>id\<close> is written \<open>id'\<close>, the plain name being the identity function.
\<close>

record TraitCombination =
  id' :: nat
  traits :: "Trait list"

record TraitSelector =
  usedCombinations :: "string set"
  config :: GeneratorConfig
  layerProcessor :: LayerProcessor
  traitCache :: "string \<rightharpoonup> nat"

definition createTraitCombination :: "nat \<Rightarrow> Trait list \<Rightarrow> TraitCombination" where
  "createTraitCombination n selectedTraits = \<lparr>id' = n, traits = selectedTraits\<rparr>"

text \<open>
  Step 1 of the loop body: \<^verbatim>\<open>this.traitCache.get(traitType)\<close>, filled from the layer
  processor on a miss. The local variable \<^verbatim>\<open>traits\<close> holds the array's address.
\<close>

definition cachedTraits ::
  "string \<Rightarrow> Heap \<times> TraitSelector \<Rightarrow> (GeneratorError + nat) \<times> Heap \<times> TraitSelector" where
  "cachedTraits traitType st =
     (case st of (h, sel) \<Rightarrow>
        (case traitCache sel traitType of
           Some ref \<Rightarrow> (Inr ref, h, sel)
         | None \<Rightarrow>
             (case getAvailableTraits traitType (h, layerProcessor sel) of
                (Inl e, h1, lp1) \<Rightarrow> (Inl e, h1, sel\<lparr>layerProcessor := lp1\<rparr>)
              | (Inr ref, h1, lp1) \<Rightarrow>
                  (Inr ref, h1,
                   sel\<lparr>layerProcessor := lp1,
                       traitCache := (traitCache sel)(traitType \<mapsto> ref)\<rparr>))))"

text \<open>
  Steps 4 to 7: the three filters on the array the local variable refers to, the
  empty check, and the weighted draw. The second component counts the draws made.
\<close>

definition filterAndSelect ::
  "GeneratorConfig \<Rightarrow> MathRandom \<Rightarrow> string \<Rightarrow> Trait list \<Rightarrow> Trait list \<Rightarrow> nat
   \<Rightarrow> GeneratorError + Trait list \<times> nat" where
  "filterAndSelect cfg rnd traitType available selectedTraits k =
     (let traits4 = applyIncompatibilityRules cfg available selectedTraits;
          traits5 = applyExclusiveGroupRules cfg traitType traits4 selectedTraits;
          traits6 = applyConditionalRarity cfg traits5 selectedTraits
      in if length traits6 = 0 then
           Inl (newGeneratorError PROCESSING_ERROR
                  (''All traits filtered out for layer '' @ traitType @ ''. Retrying combination.'')
                  (Some [(''recoverable'', True)]))
         else (case weightedRandomSelect rnd k traits6 of
                 (Inl e, k') \<Rightarrow> Inl e
               | (Inr selectedTrait, k') \<Rightarrow> Inr (selectedTraits @ [selectedTrait], k')))"

text \<open>
  Steps 3 to 7, entered when no forced trait was found: the dependent traits, which
  may fulfil the layer, then the filters and the draw.
\<close>

definition dependentThenSelect ::
  "MathRandom \<Rightarrow> string \<Rightarrow> nat \<Rightarrow> Trait list \<Rightarrow> nat \<Rightarrow> Heap \<times> TraitSelector
   \<Rightarrow> (GeneratorError + Trait list \<times> nat) \<times> Heap \<times> TraitSelector" where
  "dependentThenSelect rnd traitType traitsRef selectedTraits k st =
     (case st of (h2, sel2) \<Rightarrow>
        (case applyDependentTraits (config sel2) selectedTraits (h2, layerProcessor sel2) of
           (Inl e, h3, lp3) \<Rightarrow> (Inl e, h3, sel2\<lparr>layerProcessor := lp3\<rparr>)
         | (Inr dependentTraits, h3, lp3) \<Rightarrow>
             (let selectedTraits' =
                    (if length dependentTraits > 0
                     then selectedTraits @ dependentTraits else selectedTraits);
                  sel3 = sel2\<lparr>layerProcessor := lp3\<rparr>
              in if length dependentTraits > 0
                    \<and> list_ex (\<lambda>t. type t = traitType) dependentTraits
                 then (Inr (selectedTraits', k), h3, sel3)
                 else (filterAndSelect (config sel2) rnd traitType (h3 ! traitsRef)
                         selectedTraits' k, h3, sel3))))"

text \<open>The body of \<^verbatim>\<open>for (const traitType of layerOrder)\<close>.\<close>

definition selectForLayer ::
  "MathRandom \<Rightarrow> string \<Rightarrow> Trait list \<times> nat \<Rightarrow> Heap \<times> TraitSelector
   \<Rightarrow> (GeneratorError + Trait list \<times> nat) \<times> Heap \<times> TraitSelector" where
  "selectForLayer rnd traitType sk st =
     (case sk of (selectedTraits, k) \<Rightarrow>
        (case cachedTraits traitType st of
           (Inl e, h1, sel1) \<Rightarrow> (Inl e, h1, sel1)
         | (Inr traitsRef, h1, sel1) \<Rightarrow>
             (case applyForcedPairings (config sel1) traitType selectedTraits
                     (h1, layerProcessor sel1) of
                (Inl e, h2, lp2) \<Rightarrow> (Inl e, h2, sel1\<lparr>layerProcessor := lp2\<rparr>)
              | (Inr (Some forcedTrait), h2, lp2) \<Rightarrow>
                  (Inr (selectedTraits @ [forcedTrait], k), h2, sel1\<lparr>layerProcessor := lp2\<rparr>)
              | (Inr None, h2, lp2) \<Rightarrow>
                  dependentThenSelect rnd traitType traitsRef selectedTraits k
                    (h2, sel1\<lparr>layerProcessor := lp2\<rparr>))))"

fun layerLoop ::
  "MathRandom \<Rightarrow> string list \<Rightarrow> Trait list \<times> nat \<Rightarrow> Heap \<times> TraitSelector
   \<Rightarrow> (GeneratorError + Trait list \<times> nat) \<times> Heap \<times> TraitSelector" where
  "layerLoop rnd [] sk st = (Inr sk, st)"
| "layerLoop rnd (traitType # rest) sk st =
     (case selectForLayer rnd traitType sk st of
        (Inl e, st') \<Rightarrow> (Inl e, st')
      | (Inr sk', st') \<Rightarrow> layerLoop rnd rest sk' st')"

text \<open>
  \<^verbatim>\<open>generateSingleCombination(id)\<close>: \<open>Inl\<close> is the rejection of the promise. Each attempt
  has its own sequence of draws, read from position 0.
\<close>

definition generateSingleCombination ::
  "MathRandom \<Rightarrow> nat \<Rightarrow> Heap \<times> TraitSelector
   \<Rightarrow> (GeneratorError + TraitCombination) \<times> Heap \<times> TraitSelector" where
  "generateSingleCombination rnd n st =
     (case layerLoop rnd (trait_processing_order (config (snd st))) ([], 0) st of
        (Inl e, st') \<Rightarrow> (Inl e, st')
      | (Inr (selectedTraits, k), st') \<Rightarrow> (Inr (createTraitCombination n selectedTraits), st'))"

section \<open>TraitSelector: the batch loop\<close>

text \<open>
  \<^verbatim>\<open>getCombinationKey\<close>: \<^verbatim>\<open>Array.prototype.sort\<close> without a comparator orders strings by
  their code units, which is the lexicographic order on lists of characters.
\<close>

definition getCombinationKey :: "TraitCombination \<Rightarrow> string" where
  "getCombinationKey combination =
     jsJoin ''|'' (sort (map (\<lambda>t. type t @ '':'' @ hd (jsSplit CHR ''#'' (name t)))
                          (traits combination)))"

text \<open>
  What \<^verbatim>\<open>logger.error\<close> and \<^verbatim>\<open>logger.info\<close> receive from \<^verbatim>\<open>generateCombinations\<close>: a failed
  attempt with its number and error, the shortfall (generated, requested, attempts) and
  the closing summary (generated, attempts, duplicates). The \<^verbatim>\<open>logger.debug\<close> calls of the
  rules have no model.
\<close>

datatype LogEntry =
  FatalAttempt nat GeneratorError
  | Shortfall nat nat nat
  | Completed nat nat nat

text \<open>The local variables of \<^verbatim>\<open>generateCombinations\<close>, and the log.\<close>

record GenerationState =
  combinations :: "TraitCombination list"
  attempts :: nat
  duplicates :: nat
  logged :: "LogEntry list"

text \<open>
  The batch: attempt \<open>i\<close> is launched with id \<^verbatim>\<open>combinations.length + i + 1\<close>, the length
  being the one before the batch, and \<^verbatim>\<open>Promise.allSettled\<close> returns the results in launch
  order, a rejection being a result like any other. The attempts of a batch are
  interleaved on one thread; the model runs them one after the other in launch
  order, and the \<open>a\<close>-th attempt launched draws from its own sequence \<open>rnd a\<close>, so that
  every distribution of the draws among the attempts is covered. The schedule shows
  only where a dependent trait resolves while several attempts are in flight: the
  cached list an attempt filters then holds the pushes of whichever attempts ran
  before, and the combinations returned may differ from the ones computed here. The
  statements about every run below are proved attempt by attempt for an arbitrary
  store, and the runs evaluated configure no dependent trait or hold a single attempt.
\<close>

fun launchBatch ::
  "(nat \<Rightarrow> MathRandom) \<Rightarrow> nat \<Rightarrow> nat \<Rightarrow> nat list \<Rightarrow> Heap \<times> TraitSelector
   \<Rightarrow> (GeneratorError + TraitCombination) list \<times> Heap \<times> TraitSelector" where
  "launchBatch rnd launched len [] st = ([], st)"
| "launchBatch rnd launched len (i # rest) st =
     (case generateSingleCombination (rnd (launched + i)) (len + i + 1) st of
        (result, st') \<Rightarrow>
          (case launchBatch rnd launched len rest st' of
             (results, st'') \<Rightarrow> (result # results, st'')))"

text \<open>The body of \<^verbatim>\<open>for (const result of batchResults)\<close>, and the loop.\<close>

definition settleResult ::
  "GeneratorError + TraitCombination \<Rightarrow> GenerationState \<times> string set
   \<Rightarrow> GenerationState \<times> string set" where
  "settleResult result gu =
     (case gu of (g, used) \<Rightarrow>
        (let g1 = g\<lparr>attempts := attempts g + 1\<rparr>
         in case result of
              Inr combination \<Rightarrow>
                (let key = getCombinationKey combination
                 in if key \<notin> used then
                      (g1\<lparr>combinations := combinations g1 @ [combination]\<rparr>, insert key used)
                    else (g1\<lparr>duplicates := duplicates g1 + 1\<rparr>, used))
            | Inl error \<Rightarrow>
                if recoverable error then (g1, used)
                else (g1\<lparr>logged := logged g1 @ [FatalAttempt (attempts g1) error]\<rparr>, used)))"

fun processResults ::
  "(GeneratorError + TraitCombination) list \<Rightarrow> GenerationState \<times> string set
   \<Rightarrow> GenerationState \<times> string set" where
  "processResults [] gu = gu"
| "processResults (result # rest) gu = processResults rest (settleResult result gu)"

text \<open>One turn of the \<^verbatim>\<open>while\<close> loop.\<close>

definition runBatch ::
  "(nat \<Rightarrow> MathRandom) \<Rightarrow> nat \<Rightarrow> GenerationState \<times> Heap \<times> TraitSelector
   \<Rightarrow> GenerationState \<times> Heap \<times> TraitSelector" where
  "runBatch rnd count gs =
     (case gs of (g, st) \<Rightarrow>
        (let batchSize = min 50 count;
             remaining = count - length (combinations g);
             currentBatchSize = min batchSize remaining
         in case launchBatch rnd (attempts g) (length (combinations g))
                   [0 ..< currentBatchSize] st of
              (batchResults, h', sel') \<Rightarrow>
                (case processResults batchResults (g, usedCombinations sel') of
                   (g', used') \<Rightarrow> (g', h', sel'\<lparr>usedCombinations := used'\<rparr>))))"

text \<open>
  \<^verbatim>\<open>while (combinations.length < count && attempts < maxAttempts)\<close>, with
  \<^verbatim>\<open>maxAttempts = count * 10\<close>. Every turn settles at least one attempt, which is the
  termination argument.
\<close>

function generationLoop ::
  "(nat \<Rightarrow> MathRandom) \<Rightarrow> nat \<Rightarrow> GenerationState \<times> Heap \<times> TraitSelector
   \<Rightarrow> GenerationState \<times> Heap \<times> TraitSelector" where
  "generationLoop rnd count gs =
     (if length (combinations (fst gs)) < count \<and> attempts (fst gs) < count * 10
      then generationLoop rnd count (runBatch rnd count gs)
      else gs)"
  by pat_completeness auto
termination
proof (relation "measure (\<lambda>(rnd, count, gs). count * 10 - attempts (fst gs))")
  show "wf (measure (\<lambda>(rnd, count, gs). count * 10 - attempts (fst gs)))"
    by simp
next
  fix rnd :: "nat \<Rightarrow> MathRandom" and count :: nat
    and gs :: "GenerationState \<times> Heap \<times> TraitSelector"
  assume c: "length (combinations (fst gs)) < count \<and> attempts (fst gs) < count * 10"
  have launched: "length (fst (launchBatch rnd a len is st)) = length is"
    for a len "is" st
    by (induction "is" arbitrary: st) (auto split: prod.splits, metis fst_conv)
  have settled: "attempts (fst (processResults rs gu)) = attempts (fst gu) + length rs"
    for rs gu
    by (induction rs arbitrary: gu)
       (auto simp: settleResult_def Let_def split: sum.splits prod.splits)
  obtain g st where gs: "gs = (g, st)" by (cases gs)
  have "attempts (fst (runBatch rnd count gs))
        = attempts g + min (min 50 count) (count - length (combinations g))"
    using launched [of "attempts g" "length (combinations g)"
                       "[0 ..< min (min 50 count) (count - length (combinations g))]" st]
          settled
    by (auto simp: gs runBatch_def Let_def split: prod.splits)
       (metis fst_conv)
  then have "attempts (fst gs) < attempts (fst (runBatch rnd count gs))"
    using c by (simp add: gs)
  then show "((rnd, count, runBatch rnd count gs), (rnd, count, gs))
        \<in> measure (\<lambda>(rnd, count, gs). count * 10 - attempts (fst gs))"
    using c by (simp add: diff_less_mono2)
qed

declare generationLoop.simps [simp del]

text \<open>
  \<^verbatim>\<open>generateCombinations(count)\<close>. The value returned to the caller is the \<open>combinations\<close>
  field of the first component; the same component carries the counters the function
  logs before it returns.
\<close>

definition generateCombinations ::
  "(nat \<Rightarrow> MathRandom) \<Rightarrow> nat \<Rightarrow> Heap \<times> TraitSelector
   \<Rightarrow> GenerationState \<times> Heap \<times> TraitSelector" where
  "generateCombinations rnd count st =
     (case generationLoop rnd count
             (\<lparr>combinations = [], attempts = 0, duplicates = 0, logged = []\<rparr>, st) of
        (g, st') \<Rightarrow>
          (let g1 = (if length (combinations g) < count
                     then g\<lparr>logged := logged g
                            @ [Shortfall (length (combinations g)) count (attempts g)]\<rparr>
                     else g);
               g2 = g1\<lparr>logged := logged g1
                      @ [Completed (length (combinations g1)) (attempts g1) (duplicates g1)]\<rparr>
           in (g2, st')))"

text \<open>\<^verbatim>\<open>new TraitSelector(config, layerProcessor)\<close>.\<close>

definition newTraitSelector :: "GeneratorConfig \<Rightarrow> LayerProcessor \<Rightarrow> TraitSelector" where
  "newTraitSelector cfg lp =
     \<lparr>usedCombinations = {}, config = cfg, layerProcessor = lp, traitCache = Map.empty\<rparr>"

section \<open>Predicates of the statements\<close>

text \<open>
  A cache is typed in a store when every category it knows refers to an array of the
  store whose traits all carry that category.
\<close>

definition typedCache :: "Heap \<Rightarrow> (string \<rightharpoonup> nat) \<Rightarrow> bool" where
  "typedCache h cache =
     (\<forall>T ref. cache T = Some ref \<longrightarrow> ref < length h \<and> (\<forall>t \<in> set (h ! ref). type t = T))"

definition wellTyped :: "Heap \<times> TraitSelector \<Rightarrow> bool" where
  "wellTyped st =
     (typedCache (fst st) (traitCache (snd st))
      \<and> typedCache (fst st) (LayerProcessor.traitCache (layerProcessor (snd st))))"

text \<open>A later store keeps every array of an earlier one, with the same elements.\<close>

definition heapExtends :: "Heap \<Rightarrow> Heap \<Rightarrow> bool" where
  "heapExtends h h' =
     (length h \<le> length h' \<and> (\<forall>ref < length h. set (h' ! ref) = set (h ! ref)))"

text \<open>The accepted combinations have distinct signatures, all recorded as used.\<close>

definition keysRecorded :: "GenerationState \<times> string set \<Rightarrow> bool" where
  "keysRecorded gu =
     (distinct (map getCombinationKey (combinations (fst gu)))
      \<and> (\<forall>c \<in> set (combinations (fst gu)). getCombinationKey c \<in> snd gu))"






section \<open>Concrete inputs\<close>

text \<open>
  A validated layer processor over a given hierarchy with nothing cached yet, a leaf
  folder with one frame, a configuration with a processing order and no rule table, and
  draws read from a script (0 where the script ends).
\<close>

definition validatedLayers :: "(string \<times> (string \<times> TraitNode) list) list \<Rightarrow> LayerProcessor" where
  "validatedLayers hier =
     \<lparr>validationResult = Some \<lparr>isValid = True, errors = [], warnings = []\<rparr>,
      hierarchy = hier, traitCache = Map.empty\<rparr>"

definition leaf :: "string \<Rightarrow> rat \<Rightarrow> string \<times> TraitNode" where
  "leaf nm w = (nm, TraitNode w nm [''1.png''] None)"

definition plainConfig :: "string list \<Rightarrow> GeneratorConfig" where
  "plainConfig order =
     \<lparr>trait_processing_order = order, incompatible_traits = None, forced_pairings = None,
      dependent_traits = None, exclusive_groups = None, conditional_rarity = None\<rparr>"

definition scriptedDraws :: "rat list list \<Rightarrow> nat \<Rightarrow> MathRandom" where
  "scriptedDraws script a k =
     (if a < length script \<and> k < length (script ! a) then script ! a ! k else 0)"

section \<open>Frame normalisation\<close>

lemma loopFrames_eq:
  "originalFrames \<noteq> [] \<Longrightarrow> [] \<notin> set originalFrames \<Longrightarrow>
   loopFrames originalFrames i n acc =
     acc @ map (\<lambda>j. originalFrames ! (j mod length originalFrames)) [i ..< i + n]"
proof (induction n arbitrary: i acc)
  case 0
  then show ?case by simp
next
  case (Suc n)
  have "originalFrames ! (i mod length originalFrames) \<in> set originalFrames"
    using Suc.prems(1) by simp
  then have ne: "originalFrames ! (i mod length originalFrames) \<noteq> []"
    using Suc.prems(2) by metis
  have "loopFrames originalFrames i (Suc n) acc =
        loopFrames originalFrames (Suc i) n
          (acc @ [originalFrames ! (i mod length originalFrames)])"
    using ne by (simp add: Let_def)
  also have "\<dots> = (acc @ [originalFrames ! (i mod length originalFrames)]) @
        map (\<lambda>j. originalFrames ! (j mod length originalFrames)) [Suc i ..< Suc i + n]"
    using Suc.IH [OF Suc.prems] by blast
  also have "\<dots> = acc @
        map (\<lambda>j. originalFrames ! (j mod length originalFrames)) [i ..< i + Suc n]"
    using upt_conv_Cons [of i "i + Suc n"] by (simp del: upt_Suc)
  finally show ?case .
qed

text \<open>
  Claim C10. A leaf's frames are the names of its image files, hence non-empty strings.
  For such a list of \<open>k \<ge> 1\<close> frames and a required count \<open>r\<close>, the normalised list has
  exactly \<open>r\<close> entries: the first \<open>r\<close> originals when \<open>k \<ge> r\<close>, and entry \<open>i\<close> is original
  \<open>i mod k\<close> when \<open>k < r\<close>.
\<close>

theorem loopFramesToRequiredCount_spec:
  assumes "fs \<noteq> []" and "[] \<notin> set fs"
  shows "length (loopFramesToRequiredCount r fs) = r
       \<and> (length fs \<ge> r \<longrightarrow> loopFramesToRequiredCount r fs = take r fs)
       \<and> (length fs < r \<longrightarrow>
            (\<forall>i < r. loopFramesToRequiredCount r fs ! i = fs ! (i mod length fs)))"
proof (cases "length fs \<ge> r")
  case True
  then show ?thesis using assms by (simp add: loopFramesToRequiredCount_def)
next
  case False
  have "loopFramesToRequiredCount r fs = map (\<lambda>j. fs ! (j mod length fs)) [0 ..< r]"
    using False assms loopFrames_eq [OF assms, of 0 r "[]"]
    by (simp add: loopFramesToRequiredCount_def)
  then show ?thesis using False by simp
qed

theorem loopFramesToRequiredCount_spec_witness:
  "loopFramesToRequiredCount 7 [''f0'', ''f1'', ''f2'']
     = [''f0'', ''f1'', ''f2'', ''f0'', ''f1'', ''f2'', ''f0'']
   \<and> length (loopFramesToRequiredCount 7 [''f0'', ''f1'', ''f2'']) = 7
   \<and> loopFramesToRequiredCount 2 [''f0'', ''f1'', ''f2''] = [''f0'', ''f1'']"
proof -
  have a: "[''f0'', ''f1'', ''f2''] \<noteq> []" by simp
  have b: "[] \<notin> set [''f0'', ''f1'', ''f2'']" by simp
  have e: "loopFramesToRequiredCount 7 [''f0'', ''f1'', ''f2'']
     = [''f0'', ''f1'', ''f2'', ''f0'', ''f1'', ''f2'', ''f0'']"
    by code_simp
  show ?thesis
    using loopFramesToRequiredCount_spec [OF a b, of 7]
          loopFramesToRequiredCount_spec [OF a b, of 2] e
    by simp
qed

section \<open>The sampler on degenerate weights\<close>

lemma jsSplit_not_Nil: "jsSplit sep s \<noteq> []"
  by (induction s) (auto split: list.splits)

lemma foldl_weight_zero:
  "\<forall>t \<in> set ts. weight t = 0 \<Longrightarrow> foldl (\<lambda>sum trait. sum + weight trait) a ts = a"
  by (induction ts arbitrary: a) auto

text \<open>
  Claim C7, as the code has it. For every non-empty candidate list whose weights are all
  zero, and for every draw, \<^verbatim>\<open>weightedRandomSelect\<close> returns the first candidate in
  iteration order: the remainder is \<open>0\<close> after the first subtraction and \<^verbatim>\<open>random <= 0\<close>
  holds there. The fallback to the last candidate is not reached. (The products and
  differences with zero are exact in double precision as well.)
\<close>

theorem weightedRandomSelect_all_zero:
  assumes "candidates \<noteq> []" and "\<forall>t \<in> set candidates. weight t = 0"
  shows "fst (weightedRandomSelect rnd k candidates) = Inr (hd candidates)"
proof -
  obtain c cs where cands: "candidates = c # cs"
    using assms(1) by (cases candidates) auto
  have w: "weight c = 0" using assms(2) cands by simp
  have total: "foldl (\<lambda>sum trait. sum + weight trait) 0 candidates = 0"
    using foldl_weight_zero [OF assms(2)] .
  show ?thesis
  proof (cases "length candidates = 1")
    case True
    then show ?thesis by (simp add: weightedRandomSelect_def cands)
  next
    case False
    have sw: "scanWeights 0 candidates = Some c"
      using w by (simp add: cands)
    have "weightedRandomSelect rnd k candidates
          = (case scanWeights 0 candidates of
               Some trait \<Rightarrow> Inr trait
             | None \<Rightarrow> Inr (candidates ! (length candidates - 1)), Suc k)"
      using False assms(1) by (simp add: weightedRandomSelect_def Let_def total)
    with sw have "weightedRandomSelect rnd k candidates = (Inr c, Suc k)"
      by simp
    then show ?thesis by (simp add: cands)
  qed
qed

theorem weightedRandomSelect_all_zero_witness:
  "fst (weightedRandomSelect (scriptedDraws [[1/2]] 0) 0
         (collectLeafTraits [leaf ''Red'' 0, leaf ''Blue'' 0, leaf ''Green'' 0] ''bg''))
   = Inr (hd (collectLeafTraits [leaf ''Red'' 0, leaf ''Blue'' 0, leaf ''Green'' 0] ''bg''))"
proof -
  have a: "collectLeafTraits [leaf ''Red'' 0, leaf ''Blue'' 0, leaf ''Green'' 0] ''bg'' \<noteq> []"
    by (simp add: leaf_def)
  have b: "\<forall>t \<in> set (collectLeafTraits [leaf ''Red'' 0, leaf ''Blue'' 0, leaf ''Green'' 0] ''bg'').
             weight t = 0"
    by (simp add: leaf_def)
  show ?thesis using weightedRandomSelect_all_zero [OF a b] .
qed

text \<open>
  Claim C7 as stated fails: with two candidates of weight zero the sampler returns Red,
  the first, and not Blue, the last.
\<close>

theorem weightedRandomSelect_all_zero_not_last:
  "fst (weightedRandomSelect (scriptedDraws [[1/2]] 0) 0
         (collectLeafTraits [leaf ''Red'' 0, leaf ''Blue'' 0] ''bg''))
   \<noteq> Inr (last (collectLeafTraits [leaf ''Red'' 0, leaf ''Blue'' 0] ''bg''))"
  by (simp add: leaf_def weightedRandomSelect_def scriptedDraws_def)

section \<open>The catalog store\<close>

lemma collectLeafTraits_type: "t \<in> set (collectLeafTraits entries T) \<Longrightarrow> type t = T"
  by (induction entries T rule: collectLeafTraits.induct)
     (auto split: if_splits option.splits, metis)

lemma heapExtends_refl: "heapExtends h h"
  by (simp add: heapExtends_def)

lemma heapExtends_trans: "heapExtends h1 h2 \<Longrightarrow> heapExtends h2 h3 \<Longrightarrow> heapExtends h1 h3"
  by (auto simp: heapExtends_def)

lemma heapExtends_append: "heapExtends h (h @ [ts])"
  by (simp add: heapExtends_def nth_append)

lemma heapExtends_push: "t \<in> set (h ! ref) \<Longrightarrow> heapExtends h (h[ref := h ! ref @ [t]])"
proof -
  have "set (h[ref := h ! ref @ [t]] ! r) = set (h ! r)" if "t \<in> set (h ! ref)" "r < length h" for r
    using that by (cases "r = ref") auto
  then show "t \<in> set (h ! ref) \<Longrightarrow> heapExtends h (h[ref := h ! ref @ [t]])"
    by (simp add: heapExtends_def)
qed

lemma typedCache_extends: "typedCache h cache \<Longrightarrow> heapExtends h h' \<Longrightarrow> typedCache h' cache"
  unfolding typedCache_def heapExtends_def
  by (metis le_trans not_less)

lemma typedCache_new:
  assumes "typedCache h cache" and "\<forall>t \<in> set ts. type t = T"
  shows "typedCache (h @ [ts]) (cache(T \<mapsto> length h))"
  using assms unfolding typedCache_def
  by (auto simp: nth_append less_Suc_eq)

lemma getAvailableTraits_props:
  assumes "getAvailableTraits T (h, lp) = (r, h', lp')"
  shows "heapExtends h h'
         \<and> (\<forall>ref. r = Inr ref \<longrightarrow> LayerProcessor.traitCache lp' T = Some ref)
         \<and> (typedCache h (LayerProcessor.traitCache lp)
              \<longrightarrow> typedCache h' (LayerProcessor.traitCache lp'))"
proof (cases "LayerProcessor.traitCache lp T")
  case (Some ref)
  then show ?thesis
    using assms by (auto simp: getAvailableTraits_def heapExtends_refl)
next
  case None
  show ?thesis
  proof (cases "case validationResult lp of Some v \<Rightarrow> isValid v | None \<Rightarrow> False")
    case False
    then show ?thesis
      using assms None by (auto simp: getAvailableTraits_def heapExtends_refl)
  next
    case True
    define ts where "ts = (case map_of (hierarchy lp) T of
                             None \<Rightarrow> [] | Some entries \<Rightarrow> collectLeafTraits entries T)"
    have ty: "\<forall>t \<in> set ts. type t = T"
      by (auto simp: ts_def collectLeafTraits_type split: option.splits)
    have "r = Inr (length h)" and "h' = h @ [ts]"
      and "LayerProcessor.traitCache lp' = (LayerProcessor.traitCache lp)(T \<mapsto> length h)"
      using assms None True
      by (auto simp: getAvailableTraits_def ts_def split: option.splits)
    then show ?thesis
      using typedCache_new [OF _ ty] heapExtends_append by simp
  qed
qed

lemma find_Some_mem: "find P xs = Some x \<Longrightarrow> x \<in> set xs"
  by (induction xs) (auto split: if_splits)

lemma typedCache_mem:
  "typedCache h cache \<Longrightarrow> cache T = Some ref \<Longrightarrow> t \<in> set (h ! ref) \<Longrightarrow> type t = T"
  by (simp add: typedCache_def)

lemma forcedPairingsLoop_props:
  "forcedPairingsLoop T selected table (h, lp) = (r, h', lp') \<Longrightarrow>
   heapExtends h h'
   \<and> (typedCache h (LayerProcessor.traitCache lp)
        \<longrightarrow> typedCache h' (LayerProcessor.traitCache lp')
            \<and> (\<forall>t. r = Inr (Some t) \<longrightarrow> type t = T))"
proof (induction table arbitrary: h lp)
  case Nil
  then show ?case by (auto simp: heapExtends_refl)
next
  case (Cons entry rest)
  obtain triggerKey forcedKey where entry: "entry = (triggerKey, forcedKey)"
    by (cases entry)
  define forcedParts where "forcedParts = jsSplit CHR '':'' (jsString forcedKey)"
  define forcedName where
    "forcedName = (if length forcedParts > 1 then forcedParts ! 1 else forcedParts ! 0)"
  define resolve where
    "resolve = (triggerIsSelected selected triggerKey \<and> forcedParts ! 0 = T
                \<and> \<not> isAlreadySelected selected (jsString forcedKey) forcedName)"
  show ?case
  proof (cases resolve)
    case False
    then have "forcedPairingsLoop T selected (entry # rest) (h, lp)
               = forcedPairingsLoop T selected rest (h, lp)"
      by (auto simp: entry resolve_def forcedName_def forcedParts_def Let_def)
    then show ?thesis using Cons.IH Cons.prems by simp
  next
    case True
    obtain r1 h1 lp1 where g: "getAvailableTraits T (h, lp) = (r1, h1, lp1)"
      by (metis prod_cases3)
    have p1: "heapExtends h h1"
      "\<forall>ref. r1 = Inr ref \<longrightarrow> LayerProcessor.traitCache lp1 T = Some ref"
      "typedCache h (LayerProcessor.traitCache lp)
         \<longrightarrow> typedCache h1 (LayerProcessor.traitCache lp1)"
      using getAvailableTraits_props [OF g] by simp_all
    have step: "forcedPairingsLoop T selected (entry # rest) (h, lp)
        = (case r1 of
             Inl e \<Rightarrow> (Inl e, h1, lp1)
           | Inr ref \<Rightarrow>
               (case find (\<lambda>t. hd (jsSplit CHR ''#'' (name t)) = forcedName) (h1 ! ref) of
                  Some forcedTrait \<Rightarrow> (Inr (Some forcedTrait), h1, lp1)
                | None \<Rightarrow> forcedPairingsLoop T selected rest (h1, lp1)))"
      using True g
      by (auto simp: entry resolve_def forcedName_def forcedParts_def Let_def
               split: sum.splits)
    show ?thesis
    proof (cases r1)
      case (Inl e)
      then show ?thesis using step Cons.prems p1 by auto
    next
      case (Inr ref)
      show ?thesis
      proof (cases "find (\<lambda>t. hd (jsSplit CHR ''#'' (name t)) = forcedName) (h1 ! ref)")
        case None
        then have "forcedPairingsLoop T selected rest (h1, lp1) = (r, h', lp')"
          using step Inr Cons.prems by simp
        then show ?thesis
          using Cons.IH [of h1 lp1] p1 heapExtends_trans by blast
      next
        case (Some t)
        then have res: "r = Inr (Some t)" "h' = h1" "lp' = lp1"
          using step Inr Cons.prems by simp_all
        have "typedCache h1 (LayerProcessor.traitCache lp1) \<Longrightarrow> type t = T"
          using typedCache_mem p1(2) Inr find_Some_mem [OF Some] by blast
        then show ?thesis using res p1 by auto
      qed
    qed
  qed
qed

lemma applyForcedPairings_props:
  assumes "applyForcedPairings cfg T selected (h, lp) = (r, h', lp')"
  shows "heapExtends h h'
   \<and> (typedCache h (LayerProcessor.traitCache lp)
        \<longrightarrow> typedCache h' (LayerProcessor.traitCache lp')
            \<and> (\<forall>t. r = Inr (Some t) \<longrightarrow> type t = T))"
proof (cases "forced_pairings cfg")
  case None
  then show ?thesis using assms by (auto simp: applyForcedPairings_def heapExtends_refl)
next
  case (Some table)
  then show ?thesis
    using assms forcedPairingsLoop_props [of T selected table h lp r h' lp']
    by (simp add: applyForcedPairings_def)
qed

lemma dependentTraitsLoop_props:
  "dependentTraitsLoop selected table acc (h, lp) = (r, h', lp') \<Longrightarrow>
   heapExtends h h' \<and> (\<forall>ds. r = Inr ds \<longrightarrow> ds = acc)
   \<and> (typedCache h (LayerProcessor.traitCache lp)
        \<longrightarrow> typedCache h' (LayerProcessor.traitCache lp'))"
proof (induction table arbitrary: h lp)
  case Nil
  then show ?case by (auto simp: heapExtends_refl)
next
  case (Cons entry rest)
  obtain triggerKey dependentKey where entry: "entry = (triggerKey, dependentKey)"
    by (cases entry)
  define dependentParts where "dependentParts = jsSplit CHR '':'' dependentKey"
  define dependentName where
    "dependentName = (if length dependentParts > 1 then dependentParts ! 1 else dependentParts ! 0)"
  define resolve where
    "resolve = (triggerIsSelected selected triggerKey
                \<and> \<not> isAlreadySelected selected dependentKey dependentName)"
  show ?case
  proof (cases resolve)
    case False
    then have "dependentTraitsLoop selected (entry # rest) acc (h, lp)
               = dependentTraitsLoop selected rest acc (h, lp)"
      by (auto simp: entry resolve_def dependentName_def dependentParts_def Let_def)
    then show ?thesis using Cons.IH Cons.prems by simp
  next
    case True
    obtain r1 h1 lp1 where g:
      "getAvailableTraits (dependentParts ! 0) (h, lp) = (r1, h1, lp1)"
      by (metis prod_cases3)
    have p1: "heapExtends h h1"
      "typedCache h (LayerProcessor.traitCache lp)
         \<longrightarrow> typedCache h1 (LayerProcessor.traitCache lp1)"
      using getAvailableTraits_props [OF g] by simp_all
    have step: "dependentTraitsLoop selected (entry # rest) acc (h, lp)
        = (case r1 of
             Inl e \<Rightarrow> (Inl e, h1, lp1)
           | Inr ref \<Rightarrow>
               (case find (\<lambda>t. hd (jsSplit CHR ''#'' (name t)) = dependentName) (h1 ! ref) of
                  Some dependentTrait \<Rightarrow>
                    dependentTraitsLoop selected rest acc
                      (h1[ref := h1 ! ref @ [dependentTrait]], lp1)
                | None \<Rightarrow> dependentTraitsLoop selected rest acc (h1, lp1)))"
      using True g
      by (auto simp: entry resolve_def dependentName_def dependentParts_def Let_def
               split: sum.splits)
    show ?thesis
    proof (cases r1)
      case (Inl e)
      then show ?thesis using step Cons.prems p1 by auto
    next
      case (Inr ref)
      show ?thesis
      proof (cases "find (\<lambda>t. hd (jsSplit CHR ''#'' (name t)) = dependentName) (h1 ! ref)")
        case None
        then have "dependentTraitsLoop selected rest acc (h1, lp1) = (r, h', lp')"
          using step Inr Cons.prems by simp
        then show ?thesis
          using Cons.IH [of h1 lp1] p1 heapExtends_trans by blast
      next
        case (Some t)
        let ?h2 = "h1[ref := h1 ! ref @ [t]]"
        have e2: "heapExtends h1 ?h2"
          using heapExtends_push [OF find_Some_mem [OF Some]] .
        have t2: "typedCache h1 (LayerProcessor.traitCache lp1)
                  \<Longrightarrow> typedCache ?h2 (LayerProcessor.traitCache lp1)"
          using typedCache_extends [OF _ e2] .
        have "dependentTraitsLoop selected rest acc (?h2, lp1) = (r, h', lp')"
          using step Inr Some Cons.prems by simp
        then show ?thesis
          using Cons.IH [of ?h2 lp1] p1 e2 t2 heapExtends_trans by blast
      qed
    qed
  qed
qed

lemma applyDependentTraits_props:
  assumes "applyDependentTraits cfg selected (h, lp) = (r, h', lp')"
  shows "heapExtends h h' \<and> (\<forall>ds. r = Inr ds \<longrightarrow> ds = [])
   \<and> (typedCache h (LayerProcessor.traitCache lp)
        \<longrightarrow> typedCache h' (LayerProcessor.traitCache lp'))"
proof (cases "dependent_traits cfg")
  case None
  then show ?thesis using assms by (auto simp: applyDependentTraits_def heapExtends_refl)
next
  case (Some table)
  then show ?thesis
    using assms dependentTraitsLoop_props [of selected table "[]" h lp r h' lp']
    by (simp add: applyDependentTraits_def)
qed

section \<open>Filters and the draw\<close>

lemma applyIncompatibilityRules_subset:
  "set (applyIncompatibilityRules cfg available selected) \<subseteq> set available"
  by (auto simp: applyIncompatibilityRules_def split: option.splits)

lemma applyExclusiveGroupRules_subset:
  "set (applyExclusiveGroupRules cfg T available selected) \<subseteq> set available"
  by (auto simp: applyExclusiveGroupRules_def Let_def split: option.splits)

lemma updateFirst_map: "(\<And>x. g (f x) = g x) \<Longrightarrow> map g (updateFirst P f xs) = map g xs"
  by (induction xs) auto

lemma applyAdjustments_keys:
  "map (\<lambda>t. (type t, name t)) (applyAdjustments adjustments ts) = map (\<lambda>t. (type t, name t)) ts"
proof (induction adjustments arbitrary: ts)
  case Nil
  then show ?case by simp
next
  case (Cons a adjustments)
  obtain targetKey newWeight where a: "a = (targetKey, newWeight)" by (cases a)
  show ?case
    by (simp add: a Let_def Cons.IH updateFirst_map)
qed

lemma applyConditions_keys:
  "map (\<lambda>t. (type t, name t)) (applyConditions table selected ts) = map (\<lambda>t. (type t, name t)) ts"
proof (induction table arbitrary: ts)
  case Nil
  then show ?case by simp
next
  case (Cons c table)
  obtain conditionKey adjustments where c: "c = (conditionKey, adjustments)" by (cases c)
  show ?case
    by (simp add: c Cons.IH applyAdjustments_keys)
qed

lemma applyConditionalRarity_keys:
  "map (\<lambda>t. (type t, name t)) (applyConditionalRarity cfg available selected)
   = map (\<lambda>t. (type t, name t)) available"
  by (simp add: applyConditionalRarity_def applyConditions_keys split: option.splits)

lemma scanWeights_mem: "scanWeights random ts = Some t \<Longrightarrow> t \<in> set ts"
  by (induction ts arbitrary: random) (auto simp: Let_def split: if_splits)

lemma weightedRandomSelect_mem:
  assumes "weightedRandomSelect rnd k cs = (Inr t, k')"
  shows "t \<in> set cs"
proof (cases "length cs = 0 \<or> length cs = 1")
  case True
  then show ?thesis
    using assms by (cases cs) (auto simp: weightedRandomSelect_def)
next
  case False
  then have ne: "cs \<noteq> []" by auto
  have "last cs \<in> set cs" using ne by simp
  then have "cs ! (length cs - 1) \<in> set cs" using ne by (simp add: last_conv_nth)
  then show ?thesis
    using assms False
    by (auto simp: weightedRandomSelect_def Let_def scanWeights_mem split: option.splits)
qed

text \<open>
  What the filters and the draw append: one trait, with the category and the name of a
  candidate that passed the incompatibility filter.
\<close>

lemma filterAndSelect_Inr:
  assumes "filterAndSelect cfg rnd T available selected k = Inr (selected', k')"
  shows "\<exists>t u. selected' = selected @ [t]
           \<and> u \<in> set (applyIncompatibilityRules cfg available selected)
           \<and> type t = type u \<and> name t = name u"
proof -
  define traits4 where "traits4 = applyIncompatibilityRules cfg available selected"
  define traits5 where "traits5 = applyExclusiveGroupRules cfg T traits4 selected"
  define traits6 where "traits6 = applyConditionalRarity cfg traits5 selected"
  obtain r k1 where w: "weightedRandomSelect rnd k traits6 = (r, k1)"
    by (cases "weightedRandomSelect rnd k traits6")
  have "\<exists>t. r = Inr t \<and> selected' = selected @ [t]"
    using assms w
    by (cases r) (auto simp: filterAndSelect_def Let_def traits4_def traits5_def traits6_def
                       split: if_splits)
  then obtain t where t: "r = Inr t" "selected' = selected @ [t]" by blast
  have "t \<in> set traits6" using weightedRandomSelect_mem w t(1) by blast
  then have "(type t, name t) \<in> set (map (\<lambda>t. (type t, name t)) traits6)" by force
  then have "(type t, name t) \<in> set (map (\<lambda>t. (type t, name t)) traits5)"
    by (simp only: traits6_def applyConditionalRarity_keys)
  then obtain u where u: "u \<in> set traits5" "type t = type u" "name t = name u" by auto
  have "u \<in> set traits4"
    using u(1) applyExclusiveGroupRules_subset unfolding traits5_def by blast
  then show ?thesis using t(2) u unfolding traits4_def by blast
qed

section \<open>One layer\<close>

lemma cachedTraits_props:
  assumes "cachedTraits T (h, sel) = (r, h', sel')"
  shows "heapExtends h h'
     \<and> usedCombinations sel' = usedCombinations sel \<and> config sel' = config sel
     \<and> (wellTyped (h, sel)
          \<longrightarrow> wellTyped (h', sel')
              \<and> (\<forall>ref. r = Inr ref \<longrightarrow> ref < length h' \<and> (\<forall>t \<in> set (h' ! ref). type t = T)))"
proof (cases "traitCache sel T")
  case (Some ref)
  then have "r = Inr ref" "h' = h" "sel' = sel"
    using assms by (simp_all add: cachedTraits_def)
  then show ?thesis
    using Some by (auto simp: heapExtends_refl wellTyped_def typedCache_def)
next
  case None
  obtain r1 h1 lp1 where g: "getAvailableTraits T (h, layerProcessor sel) = (r1, h1, lp1)"
    by (metis prod_cases3)
  have p: "heapExtends h h1"
    "\<forall>ref. r1 = Inr ref \<longrightarrow> LayerProcessor.traitCache lp1 T = Some ref"
    "typedCache h (LayerProcessor.traitCache (layerProcessor sel))
       \<longrightarrow> typedCache h1 (LayerProcessor.traitCache lp1)"
    using getAvailableTraits_props [OF g] by simp_all
  show ?thesis
  proof (cases r1)
    case (Inl e)
    then have "r = Inl e" "h' = h1" "sel' = sel\<lparr>layerProcessor := lp1\<rparr>"
      using assms None g by (simp_all add: cachedTraits_def)
    then show ?thesis
      using p typedCache_extends by (auto simp: wellTyped_def)
  next
    case (Inr ref)
    then have res: "r = Inr ref" "h' = h1"
      "sel' = sel\<lparr>layerProcessor := lp1, traitCache := (traitCache sel)(T \<mapsto> ref)\<rparr>"
      using assms None g by (simp_all add: cachedTraits_def)
    have c: "LayerProcessor.traitCache lp1 T = Some ref" using p(2) Inr by simp
    have "wellTyped (h1, sel') \<and> ref < length h1 \<and> (\<forall>t \<in> set (h1 ! ref). type t = T)"
      if wt: "wellTyped (h, sel)"
    proof -
      have t1: "typedCache h1 (LayerProcessor.traitCache lp1)"
        using p(3) wt by (simp add: wellTyped_def)
      have t2: "typedCache h1 (traitCache sel)"
        using typedCache_extends [OF _ p(1)] wt by (simp add: wellTyped_def)
      have r: "ref < length h1 \<and> (\<forall>t \<in> set (h1 ! ref). type t = T)"
        using t1 c by (simp add: typedCache_def)
      have "typedCache h1 ((traitCache sel)(T \<mapsto> ref))"
        using t2 r by (simp add: typedCache_def)
      then show ?thesis using t1 r by (simp add: wellTyped_def res)
    qed
    then show ?thesis using res p(1) by simp
  qed
qed

lemma dependentThenSelect_props:
  assumes "dependentThenSelect rnd T ref selected k (h, sel) = (r, h', sel')"
  shows "heapExtends h h'
     \<and> usedCombinations sel' = usedCombinations sel \<and> config sel' = config sel
     \<and> traitCache sel' = traitCache sel
     \<and> (typedCache h (LayerProcessor.traitCache (layerProcessor sel))
          \<longrightarrow> typedCache h' (LayerProcessor.traitCache (layerProcessor sel')))
     \<and> (\<forall>s' k'. r = Inr (s', k')
          \<longrightarrow> filterAndSelect (config sel) rnd T (h' ! ref) selected k = Inr (s', k'))"
proof -
  obtain r3 h3 lp3 where d:
    "applyDependentTraits (config sel) selected (h, layerProcessor sel) = (r3, h3, lp3)"
    by (metis prod_cases3)
  have p: "heapExtends h h3" "\<forall>ds. r3 = Inr ds \<longrightarrow> ds = []"
    "typedCache h (LayerProcessor.traitCache (layerProcessor sel))
       \<longrightarrow> typedCache h3 (LayerProcessor.traitCache lp3)"
    using applyDependentTraits_props [OF d] by simp_all
  show ?thesis
  proof (cases r3)
    case (Inl e)
    then have "r = Inl e" "h' = h3" "sel' = sel\<lparr>layerProcessor := lp3\<rparr>"
      using assms d by (simp_all add: dependentThenSelect_def)
    then show ?thesis using p by simp
  next
    case (Inr ds)
    then have ds: "ds = []" using p(2) by simp
    have "r = filterAndSelect (config sel) rnd T (h3 ! ref) selected k"
      "h' = h3" "sel' = sel\<lparr>layerProcessor := lp3\<rparr>"
      using assms d Inr ds by (auto simp: dependentThenSelect_def)
    then show ?thesis using p by simp
  qed
qed

lemma selectForLayer_props:
  assumes "selectForLayer rnd T (selected, k) (h, sel) = (r, h', sel')"
  shows "usedCombinations sel' = usedCombinations sel \<and> config sel' = config sel
     \<and> (wellTyped (h, sel)
          \<longrightarrow> wellTyped (h', sel')
              \<and> (\<forall>s' k'. r = Inr (s', k') \<longrightarrow> (\<exists>t. s' = selected @ [t] \<and> type t = T)))
     \<and> (forced_pairings (config sel) = None \<or> forced_pairings (config sel) = Some []
          \<longrightarrow> (\<forall>s' k'. r = Inr (s', k')
                \<longrightarrow> (\<exists>available.
                       filterAndSelect (config sel) rnd T available selected k = Inr (s', k'))))"
proof -
  obtain r1 h1 sel1 where c: "cachedTraits T (h, sel) = (r1, h1, sel1)"
    by (metis prod_cases3)
  have p1: "heapExtends h h1" "usedCombinations sel1 = usedCombinations sel"
    "config sel1 = config sel"
    "wellTyped (h, sel) \<longrightarrow> wellTyped (h1, sel1)
       \<and> (\<forall>ref. r1 = Inr ref \<longrightarrow> ref < length h1 \<and> (\<forall>t \<in> set (h1 ! ref). type t = T))"
    using cachedTraits_props [OF c] by simp_all
  show ?thesis
  proof (cases r1)
    case (Inl e)
    then have "r = Inl e" "h' = h1" "sel' = sel1"
      using assms c by (simp_all add: selectForLayer_def)
    then show ?thesis using p1 by simp
  next
    case (Inr ref)
    obtain r2 h2 lp2 where f:
      "applyForcedPairings (config sel1) T selected (h1, layerProcessor sel1) = (r2, h2, lp2)"
      by (metis prod_cases3)
    have p2: "heapExtends h1 h2"
      "typedCache h1 (LayerProcessor.traitCache (layerProcessor sel1))
         \<longrightarrow> typedCache h2 (LayerProcessor.traitCache lp2)
             \<and> (\<forall>t. r2 = Inr (Some t) \<longrightarrow> type t = T)"
      using applyForcedPairings_props [OF f] by simp_all
    have noForced: "r2 = Inr None"
      if "forced_pairings (config sel) = None \<or> forced_pairings (config sel) = Some []"
      using that f p1(3) by (auto simp: applyForcedPairings_def)
    let ?sel2 = "sel1\<lparr>layerProcessor := lp2\<rparr>"
    have wt2: "wellTyped (h2, ?sel2)" if "wellTyped (h, sel)"
      using that p1(4) p2 typedCache_extends by (auto simp: wellTyped_def)
    show ?thesis
    proof (cases r2)
      case (Inl e)
      then have "r = Inl e" "h' = h2" "sel' = ?sel2"
        using assms c Inr f by (simp_all add: selectForLayer_def)
      then show ?thesis using p1 wt2 Inl noForced by auto
    next
      case r2: (Inr forced)
      show ?thesis
      proof (cases forced)
        case (Some t)
        then have res: "r = Inr (selected @ [t], k)" "h' = h2" "sel' = ?sel2"
          using assms c Inr f r2 by (simp_all add: selectForLayer_def)
        have "type t = T" if "wellTyped (h, sel)"
          using that p1(4) p2(2) r2 Some by (auto simp: wellTyped_def)
        then show ?thesis using res p1 wt2 noForced r2 Some by auto
      next
        case None
        then have d: "dependentThenSelect rnd T ref selected k (h2, ?sel2) = (r, h', sel')"
          using assms c Inr f r2 by (simp add: selectForLayer_def)
        have p3: "heapExtends h2 h'" "usedCombinations sel' = usedCombinations ?sel2"
          "config sel' = config ?sel2" "traitCache sel' = traitCache ?sel2"
          "typedCache h2 (LayerProcessor.traitCache (layerProcessor ?sel2))
             \<longrightarrow> typedCache h' (LayerProcessor.traitCache (layerProcessor sel'))"
          "\<forall>s' k'. r = Inr (s', k')
             \<longrightarrow> filterAndSelect (config ?sel2) rnd T (h' ! ref) selected k = Inr (s', k')"
          using dependentThenSelect_props [OF d] by simp_all
        have typed: "wellTyped (h', sel')
              \<and> (\<forall>s' k'. r = Inr (s', k') \<longrightarrow> (\<exists>t. s' = selected @ [t] \<and> type t = T))"
          if wt: "wellTyped (h, sel)"
        proof -
          have w2: "wellTyped (h2, ?sel2)" using wt2 wt .
          have w3: "wellTyped (h', sel')"
            using w2 p3(1,4,5) typedCache_extends by (auto simp: wellTyped_def)
          have refT: "ref < length h1" "\<forall>t \<in> set (h1 ! ref). type t = T"
            using p1(4) wt Inr by simp_all
          have e13: "heapExtends h1 h'" using heapExtends_trans [OF p2(1) p3(1)] .
          then have set3: "set (h' ! ref) = set (h1 ! ref)"
            using refT(1) by (simp add: heapExtends_def)
          have "\<exists>t. s' = selected @ [t] \<and> type t = T" if "r = Inr (s', k')" for s' k'
          proof -
            have "filterAndSelect (config ?sel2) rnd T (h' ! ref) selected k = Inr (s', k')"
              using p3(6) that by simp
            then obtain t u where tu: "s' = selected @ [t]"
              "u \<in> set (applyIncompatibilityRules (config ?sel2) (h' ! ref) selected)"
              "type t = type u"
              using filterAndSelect_Inr by blast
            have "u \<in> set (h' ! ref)"
              using tu(2) applyIncompatibilityRules_subset by blast
            then have "type u = T" using set3 refT(2) by simp
            then show ?thesis using tu by simp
          qed
          then show ?thesis using w3 by blast
        qed
        have "\<exists>available.
                filterAndSelect (config sel) rnd T available selected k = Inr (s', k')"
          if "r = Inr (s', k')" for s' k'
          using p3(6) that p1(3) by auto
        then show ?thesis using typed p3(2,3) p1(2,3) by simp
      qed
    qed
  qed
qed

lemma layerLoop_typed:
  assumes "wellTyped (h, sel)"
    and "layerLoop rnd order (selected, k) (h, sel) = (r, h', sel')"
  shows "wellTyped (h', sel')
     \<and> usedCombinations sel' = usedCombinations sel \<and> config sel' = config sel
     \<and> (\<forall>s' k'. r = Inr (s', k') \<longrightarrow> map type s' = map type selected @ order)"
  using assms
proof (induction order arbitrary: selected k h sel)
  case Nil
  then show ?case by auto
next
  case (Cons T order)
  obtain r1 h1 sel1 where s: "selectForLayer rnd T (selected, k) (h, sel) = (r1, h1, sel1)"
    by (metis prod_cases3)
  have p: "usedCombinations sel1 = usedCombinations sel" "config sel1 = config sel"
    "wellTyped (h1, sel1)"
    "\<forall>s' k'. r1 = Inr (s', k') \<longrightarrow> (\<exists>t. s' = selected @ [t] \<and> type t = T)"
    using selectForLayer_props [OF s] Cons.prems(1) by simp_all
  show ?case
  proof (cases r1)
    case (Inl e)
    then have "r = Inl e" "h' = h1" "sel' = sel1"
      using Cons.prems(2) s by simp_all
    then show ?thesis using p by simp
  next
    case (Inr sk1)
    obtain s1 k1 where sk1: "sk1 = (s1, k1)" by (cases sk1)
    obtain t where t: "s1 = selected @ [t]" "type t = T"
      using p(4) Inr sk1 by auto
    have "layerLoop rnd order (s1, k1) (h1, sel1) = (r, h', sel')"
      using Cons.prems(2) s Inr sk1 by simp
    then have "wellTyped (h', sel')
       \<and> usedCombinations sel' = usedCombinations sel1 \<and> config sel' = config sel1
       \<and> (\<forall>s' k'. r = Inr (s', k') \<longrightarrow> map type s' = map type s1 @ order)"
      using Cons.IH [OF p(3)] by blast
    then show ?thesis using p(1,2) t by simp
  qed
qed

lemma generateSingleCombination_typed:
  assumes "wellTyped (h, sel)"
    and "generateSingleCombination rnd n (h, sel) = (r, h', sel')"
  shows "wellTyped (h', sel')
     \<and> usedCombinations sel' = usedCombinations sel \<and> config sel' = config sel
     \<and> (\<forall>c. r = Inr c \<longrightarrow> map type (traits c) = trait_processing_order (config sel))"
proof -
  obtain r1 h1 sel1 where l:
    "layerLoop rnd (trait_processing_order (config sel)) ([], 0) (h, sel) = (r1, h1, sel1)"
    by (metis prod_cases3)
  have p: "wellTyped (h1, sel1)" "usedCombinations sel1 = usedCombinations sel"
    "config sel1 = config sel"
    "\<forall>s' k'. r1 = Inr (s', k') \<longrightarrow> map type s' = trait_processing_order (config sel)"
    using layerLoop_typed [OF assms(1) l] by simp_all
  show ?thesis
  proof (cases r1)
    case (Inl e)
    then show ?thesis
      using assms(2) l p by (auto simp: generateSingleCombination_def)
  next
    case (Inr sk)
    obtain s1 k1 where sk: "sk = (s1, k1)" by (cases sk)
    have "r = Inr (createTraitCombination n s1)" "h' = h1" "sel' = sel1"
      using assms(2) l Inr sk by (simp_all add: generateSingleCombination_def)
    then show ?thesis
      using p Inr sk by (auto simp: createTraitCombination_def)
  qed
qed

section \<open>The batch loop: counters\<close>

lemma launchBatch_length: "length (fst (launchBatch rnd a len is st)) = length is"
  by (induction "is" arbitrary: st) (auto split: prod.splits, metis fst_conv)


lemma settleResult_length:
  "length (combinations (fst (settleResult r gu))) \<le> length (combinations (fst gu)) + 1"
  by (auto simp: settleResult_def Let_def split: sum.splits prod.splits)


lemma processResults_length:
  "length (combinations (fst (processResults rs gu)))
     \<le> length (combinations (fst gu)) + length rs"
proof (induction rs arbitrary: gu)
  case Nil
  then show ?case by simp
next
  case (Cons r rs)
  have "length (combinations (fst (processResults rs (settleResult r gu))))
        \<le> length (combinations (fst (settleResult r gu))) + length rs"
    using Cons.IH .
  also have "\<dots> \<le> (length (combinations (fst gu)) + 1) + length rs"
    using settleResult_length [of r gu] by simp
  finally show ?case by simp
qed


lemma runBatch_length:
  "length (combinations (fst (runBatch rnd count (g, st))))
     \<le> length (combinations g) + min (min 50 count) (count - length (combinations g))"
proof -
  obtain rs h' sel' where l: "launchBatch rnd (attempts g) (length (combinations g))
      [0 ..< min (min 50 count) (count - length (combinations g))] st = (rs, h', sel')"
    by (metis prod_cases3)
  have len: "length rs = min (min 50 count) (count - length (combinations g))"
    using launchBatch_length [of rnd "attempts g" "length (combinations g)"
            "[0 ..< min (min 50 count) (count - length (combinations g))]" st] l
    by simp
  obtain g' u' where p: "processResults rs (g, usedCombinations sel') = (g', u')"
    by (cases "processResults rs (g, usedCombinations sel')")
  have "length (combinations g') \<le> length (combinations g) + length rs"
    using processResults_length [of rs "(g, usedCombinations sel')"] p by simp
  then show ?thesis
    using l p len by (simp add: runBatch_def Let_def)
qed

text \<open>A property that holds before the loop and that every turn keeps holds after it.\<close>

lemma generationLoop_invariant:
  assumes "I gs"
    and "\<And>gs'. I gs' \<Longrightarrow> length (combinations (fst gs')) < count
            \<Longrightarrow> attempts (fst gs') < count * 10 \<Longrightarrow> I (runBatch rnd count gs')"
  shows "I (generationLoop rnd count gs)"
  using assms
proof (induction rnd count gs rule: generationLoop.induct)
  case (1 rnd count gs)
  show ?case
  proof (cases "length (combinations (fst gs)) < count \<and> attempts (fst gs) < count * 10")
    case True
    then have eq: "generationLoop rnd count gs = generationLoop rnd count (runBatch rnd count gs)"
      by (subst generationLoop.simps) simp
    have "I (runBatch rnd count gs)" using True "1.prems" by blast
    then have "I (generationLoop rnd count (runBatch rnd count gs))"
      using "1.IH" True "1.prems"(2) by blast
    then show ?thesis by (simp add: eq)
  next
    case False
    then have "generationLoop rnd count gs = gs"
      by (subst generationLoop.simps) auto
    then show ?thesis using "1.prems"(1) by simp
  qed
qed

lemma generationLoop_exit:
  "count \<le> length (combinations (fst (generationLoop rnd count gs)))
   \<or> count * 10 \<le> attempts (fst (generationLoop rnd count gs))"
proof (induction rnd count gs rule: generationLoop.induct)
  case (1 rnd count gs)
  show ?case
  proof (cases "length (combinations (fst gs)) < count \<and> attempts (fst gs) < count * 10")
    case True
    then have eq: "generationLoop rnd count gs = generationLoop rnd count (runBatch rnd count gs)"
      by (subst generationLoop.simps) simp
    show ?thesis using "1.IH" True by (simp add: eq)
  next
    case False
    then have "generationLoop rnd count gs = gs"
      by (subst generationLoop.simps) auto
    then show ?thesis using False by auto
  qed
qed

section \<open>What an attempt leaves alone\<close>

lemma layerLoop_frame:
  "layerLoop rnd order sk (h, sel) = (r, h', sel') \<Longrightarrow>
   usedCombinations sel' = usedCombinations sel \<and> config sel' = config sel"
proof (induction order arbitrary: sk h sel)
  case Nil
  then show ?case by simp
next
  case (Cons T order)
  obtain selected k where sk: "sk = (selected, k)" by (cases sk)
  obtain r1 h1 sel1 where s: "selectForLayer rnd T (selected, k) (h, sel) = (r1, h1, sel1)"
    by (metis prod_cases3)
  have f1: "usedCombinations sel1 = usedCombinations sel \<and> config sel1 = config sel"
    using selectForLayer_props [OF s] by simp
  show ?case
  proof (cases r1)
    case (Inl e)
    then show ?thesis using Cons.prems s f1 sk by simp
  next
    case (Inr sk')
    then have "layerLoop rnd order sk' (h1, sel1) = (r, h', sel')"
      using Cons.prems s sk by simp
    then show ?thesis using Cons.IH f1 by metis
  qed
qed

lemma generateSingleCombination_frame:
  assumes "generateSingleCombination rnd n (h, sel) = (r, h', sel')"
  shows "usedCombinations sel' = usedCombinations sel \<and> config sel' = config sel"
proof -
  obtain r1 h1 sel1 where l:
    "layerLoop rnd (trait_processing_order (config sel)) ([], 0) (h, sel) = (r1, h1, sel1)"
    by (metis prod_cases3)
  have "sel' = sel1"
    using assms l by (cases r1) (auto simp: generateSingleCombination_def)
  then show ?thesis using layerLoop_frame [OF l] by simp
qed

lemma launchBatch_frame:
  "launchBatch rnd a len is (h, sel) = (rs, h', sel') \<Longrightarrow>
   usedCombinations sel' = usedCombinations sel \<and> config sel' = config sel"
proof (induction "is" arbitrary: h sel rs)
  case Nil
  then show ?case by simp
next
  case (Cons i "is")
  obtain r1 h1 sel1 where s:
    "generateSingleCombination (rnd (a + i)) (len + i + 1) (h, sel) = (r1, h1, sel1)"
    by (metis prod_cases3)
  obtain rs1 h2 sel2 where l: "launchBatch rnd a len is (h1, sel1) = (rs1, h2, sel2)"
    by (metis prod_cases3)
  have "h' = h2" and "sel' = sel2" using Cons.prems s l by simp_all
  then have "launchBatch rnd a len is (h1, sel1) = (rs1, h', sel')"
    using l by simp
  then show ?case
    using Cons.IH generateSingleCombination_frame [OF s] by metis
qed

section \<open>Distinct signatures\<close>

lemma settleResult_keysRecorded: "keysRecorded gu \<Longrightarrow> keysRecorded (settleResult r gu)"
  by (auto simp: keysRecorded_def settleResult_def Let_def split: sum.splits prod.splits)

lemma processResults_keysRecorded: "keysRecorded gu \<Longrightarrow> keysRecorded (processResults rs gu)"
  by (induction rs arbitrary: gu) (simp_all add: settleResult_keysRecorded)

lemma runBatch_keysRecorded:
  assumes "keysRecorded (g, usedCombinations sel)"
    and "runBatch rnd count (g, h, sel) = (g', h', sel')"
  shows "keysRecorded (g', usedCombinations sel')"
proof -
  obtain rs h1 sel1 where l: "launchBatch rnd (attempts g) (length (combinations g))
      [0 ..< min (min 50 count) (count - length (combinations g))] (h, sel) = (rs, h1, sel1)"
    by (metis prod_cases3)
  have u: "usedCombinations sel1 = usedCombinations sel"
    using launchBatch_frame [OF l] by simp
  obtain g2 u2 where p: "processResults rs (g, usedCombinations sel1) = (g2, u2)"
    by (cases "processResults rs (g, usedCombinations sel1)")
  have "keysRecorded (g2, u2)"
    using processResults_keysRecorded [of "(g, usedCombinations sel1)" rs] assms(1) u p
    by simp
  moreover have "g' = g2" and "usedCombinations sel' = u2"
    using assms(2) l p by (auto simp: runBatch_def Let_def)
  ultimately show ?thesis by simp
qed

lemma generateCombinations_combinations:
  "combinations (fst (generateCombinations rnd count st))
   = combinations (fst (generationLoop rnd count
        (\<lparr>combinations = [], attempts = 0, duplicates = 0, logged = []\<rparr>, st)))"
  by (simp add: generateCombinations_def Let_def split: prod.splits)


text \<open>
  Claim C1. The combinations one call of \<^verbatim>\<open>generateCombinations\<close> returns have pairwise
  distinct signatures, whatever the draws, the catalog, the configuration and the
  signatures already recorded when the call starts.
\<close>

theorem generateCombinations_distinct_signatures:
  "distinct (map getCombinationKey (combinations (fst (generateCombinations rnd count st))))"
proof -
  let ?I = "\<lambda>gs. keysRecorded (fst gs, usedCombinations (snd (snd gs)))"
  have "?I (generationLoop rnd count
        (\<lparr>combinations = [], attempts = 0, duplicates = 0, logged = []\<rparr>, st))"
  proof (rule generationLoop_invariant [where I = ?I])
    show "?I (\<lparr>combinations = [], attempts = 0, duplicates = 0, logged = []\<rparr>, st)"
      by (simp add: keysRecorded_def)
  next
    fix gs' :: "GenerationState \<times> Heap \<times> TraitSelector"
    assume i: "?I gs'"
    obtain g h sel where gs': "gs' = (g, h, sel)" by (metis prod_cases3)
    obtain g2 h2 sel2 where r: "runBatch rnd count (g, h, sel) = (g2, h2, sel2)"
      by (metis prod_cases3)
    show "?I (runBatch rnd count gs')"
      using runBatch_keysRecorded [OF _ r] i by (simp add: gs' r)
  qed
  then show ?thesis
    by (simp add: keysRecorded_def generateCombinations_combinations)
qed

section \<open>The attempt budget\<close>



section \<open>From one attempt to the whole run\<close>

lemma launchBatch_all:
  assumes "P st"
    and "\<And>d n st r st'. P st \<Longrightarrow> generateSingleCombination d n st = (r, st')
           \<Longrightarrow> P st' \<and> (\<forall>c. r = Inr c \<longrightarrow> Q c)"
    and "launchBatch rnd a len is st = (rs, st')"
  shows "P st' \<and> (\<forall>c. Inr c \<in> set rs \<longrightarrow> Q c)"
  using assms(1,3)
proof (induction "is" arbitrary: st rs st')
  case Nil
  then show ?case by simp
next
  case (Cons i "is")
  obtain r1 st1 where s:
    "generateSingleCombination (rnd (a + i)) (len + i + 1) st = (r1, st1)"
    by (cases "generateSingleCombination (rnd (a + i)) (len + i + 1) st")
  obtain rs1 st2 where l: "launchBatch rnd a len is st1 = (rs1, st2)"
    by (cases "launchBatch rnd a len is st1")
  have p1: "P st1" "\<forall>c. r1 = Inr c \<longrightarrow> Q c"
    using assms(2) [OF Cons.prems(1) s] by simp_all
  have res: "rs = r1 # rs1" "st' = st2"
    using Cons.prems(2) s l by simp_all
  have "P st2 \<and> (\<forall>c. Inr c \<in> set rs1 \<longrightarrow> Q c)"
    using Cons.IH [OF p1(1) l] .
  then show ?case using res p1(2) by auto
qed

lemma settleResult_all:
  assumes "\<forall>c \<in> set (combinations (fst gu)). Q c" and "\<forall>c. r = Inr c \<longrightarrow> Q c"
  shows "\<forall>c \<in> set (combinations (fst (settleResult r gu))). Q c"
  using assms
  by (auto simp: settleResult_def Let_def split: sum.splits prod.splits)

lemma processResults_all:
  assumes "\<forall>c \<in> set (combinations (fst gu)). Q c" and "\<forall>c. Inr c \<in> set rs \<longrightarrow> Q c"
  shows "\<forall>c \<in> set (combinations (fst (processResults rs gu))). Q c"
  using assms
proof (induction rs arbitrary: gu)
  case Nil
  then show ?case by simp
next
  case (Cons r rs)
  have "\<forall>c \<in> set (combinations (fst (settleResult r gu))). Q c"
    using settleResult_all [OF Cons.prems(1), of r] Cons.prems(2) by auto
  then show ?case using Cons.IH [of "settleResult r gu"] Cons.prems(2) by simp
qed

lemma generateCombinations_all:
  assumes "P st"
    and "\<And>d n st r st'. P st \<Longrightarrow> generateSingleCombination d n st = (r, st')
           \<Longrightarrow> P st' \<and> (\<forall>c. r = Inr c \<longrightarrow> Q c)"
    and "\<And>h sel u. P (h, sel) \<Longrightarrow> P (h, sel\<lparr>usedCombinations := u\<rparr>)"
  shows "\<forall>c \<in> set (combinations (fst (generateCombinations rnd count st))). Q c"
proof -
  let ?g0 = "\<lparr>combinations = [], attempts = 0, duplicates = 0, logged = []\<rparr>"
  let ?I = "\<lambda>gs. P (snd gs) \<and> (\<forall>c \<in> set (combinations (fst gs)). Q c)"
  have "?I (generationLoop rnd count (?g0, st))"
  proof (rule generationLoop_invariant [where I = ?I])
    show "?I (?g0, st)" using assms(1) by simp
  next
    fix gs' :: "GenerationState \<times> Heap \<times> TraitSelector"
    assume i: "?I gs'"
    obtain g st1 where gs': "gs' = (g, st1)" by (cases gs')
    obtain rs h2 sel2 where l: "launchBatch rnd (attempts g) (length (combinations g))
        [0 ..< min (min 50 count) (count - length (combinations g))] st1 = (rs, h2, sel2)"
      by (metis prod_cases3)
    have p: "P (h2, sel2)" "\<forall>c. Inr c \<in> set rs \<longrightarrow> Q c"
      using launchBatch_all [where P = P and Q = Q, OF _ assms(2) l] i gs' by simp_all
    obtain g3 u3 where pr: "processResults rs (g, usedCombinations sel2) = (g3, u3)"
      by (cases "processResults rs (g, usedCombinations sel2)")
    have q: "\<forall>c \<in> set (combinations g3). Q c"
      using processResults_all [of "(g, usedCombinations sel2)" Q rs] i gs' p(2) pr by simp
    have "runBatch rnd count gs' = (g3, h2, sel2\<lparr>usedCombinations := u3\<rparr>)"
      using l pr by (simp add: gs' runBatch_def Let_def)
    then show "?I (runBatch rnd count gs')"
      using q assms(3) [OF p(1)] by simp
  qed
  then show ?thesis by (simp add: generateCombinations_combinations)
qed

section \<open>One trait per layer\<close>

lemma filter_distinct_map:
  "distinct (map f ts) \<Longrightarrow> T \<in> set (map f ts) \<Longrightarrow> length (filter (\<lambda>t. f t = T) ts) = 1"
proof (induction ts)
  case Nil
  then show ?case by simp
next
  case (Cons t ts)
  show ?case
  proof (cases "f t = T")
    case True
    then have "T \<notin> f ` set ts" using Cons.prems(1) by auto
    then have "filter (\<lambda>t. f t = T) ts = []" by (auto simp: filter_empty_conv)
    then show ?thesis using True by simp
  next
    case False
    then show ?thesis using Cons by auto
  qed
qed

text \<open>
  Claim C4, as the code has it. From a store in which the caches are typed (a fresh
  selector is one), every combination \<^verbatim>\<open>generateCombinations\<close> returns has one trait per
  entry of the processing order, in that order and of that entry's category; when the
  order names each category once, that is exactly one trait for each category. The
  entries come from the weighted draw or from a forced pairing.
\<close>

theorem generateCombinations_one_trait_per_layer:
  assumes "wellTyped st"
  shows "\<forall>c \<in> set (combinations (fst (generateCombinations rnd count st))).
           map type (traits c) = trait_processing_order (config (snd st))
           \<and> (distinct (trait_processing_order (config (snd st)))
                \<longrightarrow> (\<forall>T \<in> set (trait_processing_order (config (snd st))).
                       length (filter (\<lambda>t. type t = T) (traits c)) = 1))"
proof -
  define order where "order = trait_processing_order (config (snd st))"
  let ?P = "\<lambda>s. wellTyped s \<and> trait_processing_order (config (snd s)) = order"
  let ?Q = "\<lambda>c. map type (traits c) = order"
  have all: "\<forall>c \<in> set (combinations (fst (generateCombinations rnd count st))). ?Q c"
  proof (rule generateCombinations_all [where P = ?P and Q = ?Q])
    show "?P st" using assms by (simp add: order_def)
  next
    fix d n s r s'
    assume p: "?P s" and g: "generateSingleCombination d n s = (r, s')"
    obtain h sel where s: "s = (h, sel)" by (cases s)
    obtain h' sel' where s': "s' = (h', sel')" by (cases s')
    show "?P s' \<and> (\<forall>c. r = Inr c \<longrightarrow> ?Q c)"
      using generateSingleCombination_typed [of h sel d n r h' sel'] p g
      by (simp add: s s')
  next
    fix h sel u
    assume "?P (h, sel)"
    then show "?P (h, sel\<lparr>usedCombinations := u\<rparr>)" by (simp add: wellTyped_def)
  qed
  show ?thesis
  proof
    fix c
    assume c: "c \<in> set (combinations (fst (generateCombinations rnd count st)))"
    then have m: "map type (traits c) = order" using all by blast
    have "length (filter (\<lambda>t. type t = T) (traits c)) = 1"
      if "distinct order" "T \<in> set order" for T
      using filter_distinct_map [of type "traits c" T] that m by simp
    then show "map type (traits c) = trait_processing_order (config (snd st))
           \<and> (distinct (trait_processing_order (config (snd st)))
                \<longrightarrow> (\<forall>T \<in> set (trait_processing_order (config (snd st))).
                       length (filter (\<lambda>t. type t = T) (traits c)) = 1))"
      using m by (simp add: order_def)
  qed
qed

lemma wellTyped_fresh:
  "LayerProcessor.traitCache lp = Map.empty \<Longrightarrow> wellTyped (h, newTraitSelector cfg lp)"
  by (simp add: wellTyped_def newTraitSelector_def typedCache_def)

theorem generateCombinations_one_trait_per_layer_witness:
  "wellTyped ([], newTraitSelector (plainConfig [''bg'', ''body''])
       (validatedLayers [(''bg'', [leaf ''Red'' 1, leaf ''Blue'' 1]), (''body'', [leaf ''Human'' 1])]))
   \<and> length (combinations (fst (generateCombinations (scriptedDraws [[1/4], [3/4]]) 2
       ([], newTraitSelector (plainConfig [''bg'', ''body''])
          (validatedLayers [(''bg'', [leaf ''Red'' 1, leaf ''Blue'' 1]), (''body'', [leaf ''Human'' 1])]))))) = 2
   \<and> list_all (\<lambda>c. map type (traits c) = [''bg'', ''body'']
                    \<and> length (filter (\<lambda>t. type t = ''bg'') (traits c)) = 1
                    \<and> length (filter (\<lambda>t. type t = ''body'') (traits c)) = 1)
        (combinations (fst (generateCombinations (scriptedDraws [[1/4], [3/4]]) 2
           ([], newTraitSelector (plainConfig [''bg'', ''body''])
              (validatedLayers [(''bg'', [leaf ''Red'' 1, leaf ''Blue'' 1]), (''body'', [leaf ''Human'' 1])])))))"
proof -
  let ?st = "([] :: Heap, newTraitSelector (plainConfig [''bg'', ''body''])
       (validatedLayers [(''bg'', [leaf ''Red'' 1, leaf ''Blue'' 1]), (''body'', [leaf ''Human'' 1])]))"
  have w: "wellTyped ?st"
    by (simp add: wellTyped_fresh validatedLayers_def)
  have o: "trait_processing_order (config (snd ?st)) = [''bg'', ''body'']"
    by (simp add: newTraitSelector_def plainConfig_def)
  have n: "length (combinations (fst (generateCombinations (scriptedDraws [[1/4], [3/4]]) 2 ?st))) = 2"
    by code_simp
  show ?thesis
    using generateCombinations_one_trait_per_layer
            [OF w, of "scriptedDraws [[1/4], [3/4]]" 2] w n
    unfolding o list_all_iff by simp
qed

text \<open>
  Claim C4 as stated fails on a processing order that names a category twice, which the
  configuration schema admits: the combination then holds two traits of that category.
\<close>

theorem generateCombinations_repeated_layer:
  "map type (traits (hd (combinations (fst (generateCombinations (scriptedDraws []) 1
       ([], newTraitSelector (plainConfig [''bg'', ''bg''])
          (validatedLayers [(''bg'', [leaf ''Red'' 1])]))))))) = [''bg'', ''bg'']"
  by code_simp

section \<open>The incompatibility filter\<close>














section \<open>Failed attempts and shortfalls\<close>

lemma generationLoop_length:
  "length (combinations (fst (generationLoop rnd count
      (\<lparr>combinations = [], attempts = 0, duplicates = 0, logged = []\<rparr>, st)))) \<le> count"
proof -
  let ?I = "\<lambda>gs. length (combinations (fst gs)) \<le> count"
  show ?thesis
  proof (rule generationLoop_invariant [where I = ?I])
    show "?I (\<lparr>combinations = [], attempts = 0, duplicates = 0, logged = []\<rparr>, st)" by simp
  next
    fix gs' :: "GenerationState \<times> Heap \<times> TraitSelector"
    assume a: "length (combinations (fst gs')) < count"
    obtain g st' where gs': "gs' = (g, st')" by (cases gs')
    have "length (combinations (fst (runBatch rnd count gs')))
          \<le> length (combinations g) + min (min 50 count) (count - length (combinations g))"
      using runBatch_length [of rnd count g st'] by (simp add: gs')
    then show "?I (runBatch rnd count gs')" using a gs' by simp
  qed
qed

text \<open>
  The function returns at most \<open>count\<close> combinations; when it returns fewer, the attempt
  budget was used up and the shortfall is logged.
\<close>

lemma generateCombinations_shortfall_logged:
  "length (combinations (fst (generateCombinations rnd count st))) \<le> count
   \<and> (length (combinations (fst (generateCombinations rnd count st))) < count
        \<longrightarrow> count * 10 \<le> attempts (fst (generateCombinations rnd count st))
            \<and> Shortfall (length (combinations (fst (generateCombinations rnd count st))))
                  count (attempts (fst (generateCombinations rnd count st)))
                \<in> set (logged (fst (generateCombinations rnd count st))))"
proof -
  let ?g0 = "\<lparr>combinations = [], attempts = 0, duplicates = 0, logged = []\<rparr>"
  obtain g st' where l: "generationLoop rnd count (?g0, st) = (g, st')"
    by (cases "generationLoop rnd count (?g0, st)")
  have len: "length (combinations g) \<le> count"
    using generationLoop_length [of rnd count st] l by simp
  have ex: "count \<le> length (combinations g) \<or> count * 10 \<le> attempts g"
    using generationLoop_exit [of count rnd "(?g0, st)"] l by simp
  have c: "combinations (fst (generateCombinations rnd count st)) = combinations g"
    and a: "attempts (fst (generateCombinations rnd count st)) = attempts g"
    using l by (simp_all add: generateCombinations_def Let_def)
  have s: "Shortfall (length (combinations g)) count (attempts g)
             \<in> set (logged (fst (generateCombinations rnd count st)))"
    if "length (combinations g) < count"
    using that l by (simp add: generateCombinations_def Let_def)
  show ?thesis
    using len ex s by (auto simp: c a)
qed

section \<open>Rejected attempts\<close>

lemma getAvailableTraits_error:
  "getAvailableTraits T st = (Inl e, st') \<Longrightarrow> \<not> recoverable e"
  by (cases st)
     (auto simp: getAvailableTraits_def newGeneratorError_def split: option.splits if_splits)

lemma forcedPairingsLoop_error:
  "forcedPairingsLoop T selected table (h, lp) = (Inl e, st') \<Longrightarrow> \<not> recoverable e"
proof (induction table arbitrary: h lp)
  case Nil
  then show ?case by simp
next
  case (Cons entry rest)
  obtain triggerKey forcedKey where entry: "entry = (triggerKey, forcedKey)"
    by (cases entry)
  define forcedParts where "forcedParts = jsSplit CHR '':'' (jsString forcedKey)"
  define forcedName where
    "forcedName = (if length forcedParts > 1 then forcedParts ! 1 else forcedParts ! 0)"
  define resolve where
    "resolve = (triggerIsSelected selected triggerKey \<and> forcedParts ! 0 = T
                \<and> \<not> isAlreadySelected selected (jsString forcedKey) forcedName)"
  show ?case
  proof (cases resolve)
    case False
    then have "forcedPairingsLoop T selected (entry # rest) (h, lp)
               = forcedPairingsLoop T selected rest (h, lp)"
      by (auto simp: entry resolve_def forcedName_def forcedParts_def Let_def)
    then show ?thesis using Cons.IH Cons.prems by simp
  next
    case True
    obtain r1 h1 lp1 where g: "getAvailableTraits T (h, lp) = (r1, h1, lp1)"
      by (metis prod_cases3)
    have step: "forcedPairingsLoop T selected (entry # rest) (h, lp)
        = (case r1 of
             Inl e \<Rightarrow> (Inl e, h1, lp1)
           | Inr ref \<Rightarrow>
               (case find (\<lambda>t. hd (jsSplit CHR ''#'' (name t)) = forcedName) (h1 ! ref) of
                  Some forcedTrait \<Rightarrow> (Inr (Some forcedTrait), h1, lp1)
                | None \<Rightarrow> forcedPairingsLoop T selected rest (h1, lp1)))"
      using True g
      by (auto simp: entry resolve_def forcedName_def forcedParts_def Let_def
               split: sum.splits)
    show ?thesis
    proof (cases r1)
      case (Inl e1)
      then have "e = e1" using step Cons.prems by simp
      then show ?thesis using getAvailableTraits_error g Inl by blast
    next
      case (Inr ref)
      show ?thesis
      proof (cases "find (\<lambda>t. hd (jsSplit CHR ''#'' (name t)) = forcedName) (h1 ! ref)")
        case None
        then have "forcedPairingsLoop T selected rest (h1, lp1) = (Inl e, st')"
          using step Inr Cons.prems by simp
        then show ?thesis using Cons.IH by blast
      next
        case (Some t)
        then show ?thesis using step Inr Cons.prems by simp
      qed
    qed
  qed
qed

lemma dependentTraitsLoop_error:
  "dependentTraitsLoop selected table acc (h, lp) = (Inl e, st') \<Longrightarrow> \<not> recoverable e"
proof (induction table arbitrary: h lp)
  case Nil
  then show ?case by simp
next
  case (Cons entry rest)
  obtain triggerKey dependentKey where entry: "entry = (triggerKey, dependentKey)"
    by (cases entry)
  define dependentParts where "dependentParts = jsSplit CHR '':'' dependentKey"
  define dependentName where
    "dependentName = (if length dependentParts > 1 then dependentParts ! 1 else dependentParts ! 0)"
  define resolve where
    "resolve = (triggerIsSelected selected triggerKey
                \<and> \<not> isAlreadySelected selected dependentKey dependentName)"
  show ?case
  proof (cases resolve)
    case False
    then have "dependentTraitsLoop selected (entry # rest) acc (h, lp)
               = dependentTraitsLoop selected rest acc (h, lp)"
      by (auto simp: entry resolve_def dependentName_def dependentParts_def Let_def)
    then show ?thesis using Cons.IH Cons.prems by simp
  next
    case True
    obtain r1 h1 lp1 where g:
      "getAvailableTraits (dependentParts ! 0) (h, lp) = (r1, h1, lp1)"
      by (metis prod_cases3)
    have step: "dependentTraitsLoop selected (entry # rest) acc (h, lp)
        = (case r1 of
             Inl e \<Rightarrow> (Inl e, h1, lp1)
           | Inr ref \<Rightarrow>
               (case find (\<lambda>t. hd (jsSplit CHR ''#'' (name t)) = dependentName) (h1 ! ref) of
                  Some dependentTrait \<Rightarrow>
                    dependentTraitsLoop selected rest acc
                      (h1[ref := h1 ! ref @ [dependentTrait]], lp1)
                | None \<Rightarrow> dependentTraitsLoop selected rest acc (h1, lp1)))"
      using True g
      by (auto simp: entry resolve_def dependentName_def dependentParts_def Let_def
               split: sum.splits)
    show ?thesis
    proof (cases r1)
      case (Inl e1)
      then have "e = e1" using step Cons.prems by simp
      then show ?thesis using getAvailableTraits_error g Inl by blast
    next
      case (Inr ref)
      show ?thesis
      proof (cases "find (\<lambda>t. hd (jsSplit CHR ''#'' (name t)) = dependentName) (h1 ! ref)")
        case None
        then have "dependentTraitsLoop selected rest acc (h1, lp1) = (Inl e, st')"
          using step Inr Cons.prems by simp
        then show ?thesis using Cons.IH by blast
      next
        case (Some t)
        then have "dependentTraitsLoop selected rest acc
                     (h1[ref := h1 ! ref @ [t]], lp1) = (Inl e, st')"
          using step Inr Cons.prems by simp
        then show ?thesis using Cons.IH by blast
      qed
    qed
  qed
qed

lemma weightedRandomSelect_error:
  "weightedRandomSelect rnd k ts = (Inl e, k') \<Longrightarrow> \<not> recoverable e"
  by (auto simp: weightedRandomSelect_def newGeneratorError_def Let_def
           split: if_splits option.splits)

lemma filterAndSelect_error:
  "filterAndSelect cfg rnd T available selected k = Inl e \<Longrightarrow> \<not> recoverable e"
  by (auto simp: filterAndSelect_def newGeneratorError_def Let_def weightedRandomSelect_error
           split: if_splits prod.splits sum.splits)

lemma cachedTraits_error:
  "cachedTraits T st = (Inl e, st') \<Longrightarrow> \<not> recoverable e"
  by (cases st)
     (auto simp: cachedTraits_def getAvailableTraits_error
           split: option.splits prod.splits sum.splits)

lemma dependentThenSelect_error:
  assumes "dependentThenSelect rnd T ref selected k st = (Inl e, st')"
  shows "\<not> recoverable e"
proof -
  obtain h sel where st: "st = (h, sel)" by (cases st)
  obtain r3 h3 lp3 where d:
    "applyDependentTraits (config sel) selected (h, layerProcessor sel) = (r3, h3, lp3)"
    by (metis prod_cases3)
  show ?thesis
  proof (cases r3)
    case (Inl e3)
    then have "e = e3" using assms d by (simp add: dependentThenSelect_def st)
    moreover have "\<not> recoverable e3"
      using d Inl dependentTraitsLoop_error
      by (auto simp: applyDependentTraits_def split: option.splits)
    ultimately show ?thesis by simp
  next
    case (Inr ds)
    then have "ds = []" using applyDependentTraits_props [OF d] by simp
    then have "filterAndSelect (config sel) rnd T (h3 ! ref) selected k = Inl e"
      using assms d Inr by (auto simp: dependentThenSelect_def st)
    then show ?thesis using filterAndSelect_error by blast
  qed
qed

lemma selectForLayer_error:
  assumes "selectForLayer rnd T sk st = (Inl e, st')"
  shows "\<not> recoverable e"
proof -
  obtain selected k where sk: "sk = (selected, k)" by (cases sk)
  obtain r1 h1 sel1 where c: "cachedTraits T st = (r1, h1, sel1)"
    by (metis prod_cases3)
  show ?thesis
  proof (cases r1)
    case (Inl e1)
    then have "e = e1" using assms c by (simp add: selectForLayer_def sk)
    then show ?thesis using cachedTraits_error c Inl by blast
  next
    case (Inr ref)
    obtain r2 h2 lp2 where f:
      "applyForcedPairings (config sel1) T selected (h1, layerProcessor sel1) = (r2, h2, lp2)"
      by (metis prod_cases3)
    show ?thesis
    proof (cases r2)
      case (Inl e2)
      then have "e = e2" using assms c Inr f by (simp add: selectForLayer_def sk)
      moreover have "\<not> recoverable e2"
        using f Inl forcedPairingsLoop_error
        by (auto simp: applyForcedPairings_def split: option.splits)
      ultimately show ?thesis by simp
    next
      case r2: (Inr forced)
      show ?thesis
      proof (cases forced)
        case (Some t)
        then show ?thesis using assms c Inr f r2 by (simp add: selectForLayer_def sk)
      next
        case None
        then have "\<exists>st2. dependentThenSelect rnd T ref selected k st2 = (Inl e, st')"
          using assms c Inr f r2 by (auto simp: selectForLayer_def sk)
        then show ?thesis using dependentThenSelect_error by blast
      qed
    qed
  qed
qed

lemma layerLoop_error:
  "layerLoop rnd order sk st = (Inl e, st') \<Longrightarrow> \<not> recoverable e"
proof (induction order arbitrary: sk st)
  case Nil
  then show ?case by simp
next
  case (Cons T order)
  obtain r1 st1 where s: "selectForLayer rnd T sk st = (r1, st1)"
    by (cases "selectForLayer rnd T sk st")
  show ?case
  proof (cases r1)
    case (Inl e1)
    then have "e = e1" using Cons.prems s by simp
    then show ?thesis using selectForLayer_error s Inl by blast
  next
    case (Inr sk1)
    then have "layerLoop rnd order sk1 st1 = (Inl e, st')" using Cons.prems s by simp
    then show ?thesis using Cons.IH by blast
  qed
qed

text \<open>
  Every rejection of an attempt has \<^verbatim>\<open>recoverable\<close> false, the rejection for an empty
  candidate list included: the \<^verbatim>\<open>continue\<close> of the settle loop is never taken.
\<close>

lemma generateSingleCombination_error:
  assumes "generateSingleCombination rnd n st = (Inl e, st')"
  shows "\<not> recoverable e"
proof -
  obtain r1 st1 where l:
    "layerLoop rnd (trait_processing_order (config (snd st))) ([], 0) st = (r1, st1)"
    by (cases "layerLoop rnd (trait_processing_order (config (snd st))) ([], 0) st")
  have "r1 = Inl e"
    using assms l by (cases r1) (auto simp: generateSingleCombination_def)
  then show ?thesis using layerLoop_error l by blast
qed

text \<open>
  Claim C6, evaluated on the code. Two combinations are requested; Red excludes the only
  body, Robot. The first batch launches two attempts: the first selects Red and fails
  with the error the code builds as \<^verbatim>\<open>new GeneratorError(PROCESSING_ERROR, message,
  { recoverable: true })\<close>, the second selects Blue and is accepted. The eighteen attempts
  that follow select Red and fail alike. The function returns the one combination, so
  nothing is raised and the shortfall is a shorter list; but the object literal is the
  constructor's \<^verbatim>\<open>context\<close> argument, the error's \<^verbatim>\<open>recoverable\<close> field is false, and each of
  the nineteen failures the code means to be recoverable is written to the error log as
  a fatal error of its attempt.
\<close>

theorem filtered_out_attempt_logged_fatal:
  "map (map name) (map traits (combinations (fst (generateCombinations
      (scriptedDraws [[1/4], [3/4]]) 2
      ([], newTraitSelector
         ((plainConfig [''bg'', ''body''])
            \<lparr>incompatible_traits := Some [(''bg:Red'', [''body:Robot''])]\<rparr>)
         (validatedLayers [(''bg'', [leaf ''Red'' 1, leaf ''Blue'' 1]),
                           (''body'', [leaf ''Robot'' 1])]))))))
     = [[''Blue'', ''Robot'']]
   \<and> logged (fst (generateCombinations
      (scriptedDraws [[1/4], [3/4]]) 2
      ([], newTraitSelector
         ((plainConfig [''bg'', ''body''])
            \<lparr>incompatible_traits := Some [(''bg:Red'', [''body:Robot''])]\<rparr>)
         (validatedLayers [(''bg'', [leaf ''Red'' 1, leaf ''Blue'' 1]),
                           (''body'', [leaf ''Robot'' 1])]))))
     = map (\<lambda>n. FatalAttempt n
                \<lparr>errType = PROCESSING_ERROR,
                   message = ''All traits filtered out for layer body. Retrying combination.'',
                   errContext = Some [(''recoverable'', True)],
                   recoverable = False\<rparr>)
           (1 # [3 ..< 21])
       @ [Shortfall 1 2 20, Completed 1 20 0]"
  by code_simp

section \<open>What an attempt does to the store\<close>

lemma selectForLayer_heapExtends:
  assumes "selectForLayer rnd T (selected, k) (h, sel) = (r, h', sel')"
  shows "heapExtends h h'"
proof -
  obtain r1 h1 sel1 where c: "cachedTraits T (h, sel) = (r1, h1, sel1)"
    by (metis prod_cases3)
  have e1: "heapExtends h h1" using cachedTraits_props [OF c] by simp
  show ?thesis
  proof (cases r1)
    case (Inl e)
    then have "h' = h1" using assms c by (simp add: selectForLayer_def)
    then show ?thesis using e1 by simp
  next
    case (Inr ref)
    obtain r2 h2 lp2 where f:
      "applyForcedPairings (config sel1) T selected (h1, layerProcessor sel1) = (r2, h2, lp2)"
      by (metis prod_cases3)
    have e2: "heapExtends h h2"
      using applyForcedPairings_props [OF f] e1 heapExtends_trans by blast
    show ?thesis
    proof (cases r2)
      case (Inl e)
      then have "h' = h2" using assms c Inr f by (simp add: selectForLayer_def)
      then show ?thesis using e2 by simp
    next
      case r2: (Inr forced)
      show ?thesis
      proof (cases forced)
        case (Some t)
        then have "h' = h2" using assms c Inr f r2 by (simp add: selectForLayer_def)
        then show ?thesis using e2 by simp
      next
        case None
        then have "dependentThenSelect rnd T ref selected k
                     (h2, sel1\<lparr>layerProcessor := lp2\<rparr>) = (r, h', sel')"
          using assms c Inr f r2 by (simp add: selectForLayer_def)
        then have "heapExtends h2 h'" using dependentThenSelect_props by blast
        then show ?thesis using e2 heapExtends_trans by blast
      qed
    qed
  qed
qed

lemma layerLoop_heapExtends:
  "layerLoop rnd order sk (h, sel) = (r, h', sel') \<Longrightarrow> heapExtends h h'"
proof (induction order arbitrary: sk h sel)
  case Nil
  then show ?case by (simp add: heapExtends_refl)
next
  case (Cons T order)
  obtain selected k where sk: "sk = (selected, k)" by (cases sk)
  obtain r1 h1 sel1 where s: "selectForLayer rnd T (selected, k) (h, sel) = (r1, h1, sel1)"
    by (metis prod_cases3)
  have e1: "heapExtends h h1" using selectForLayer_heapExtends [OF s] .
  show ?case
  proof (cases r1)
    case (Inl e)
    then show ?thesis using Cons.prems s e1 sk by simp
  next
    case (Inr sk')
    then have "layerLoop rnd order sk' (h1, sel1) = (r, h', sel')"
      using Cons.prems s sk by simp
    then show ?thesis using Cons.IH e1 heapExtends_trans by blast
  qed
qed

text \<open>
  An attempt never removes or rewrites a trait of the store: every array that exists
  before the attempt holds the same set of traits, weights included, after it. What an
  attempt can do to a cached list is to append traits the list already holds.
\<close>

lemma generateSingleCombination_heapExtends:
  assumes "generateSingleCombination rnd n (h, sel) = (r, h', sel')"
  shows "heapExtends h h'"
proof -
  obtain r1 h1 sel1 where l:
    "layerLoop rnd (trait_processing_order (config sel)) ([], 0) (h, sel) = (r1, h1, sel1)"
    by (metis prod_cases3)
  have "h' = h1"
    using assms l by (cases r1) (auto simp: generateSingleCombination_def)
  then show ?thesis using layerLoop_heapExtends [OF l] by simp
qed

section \<open>Ids of the accepted combinations\<close>

text \<open>
  Claim C2, evaluated on the code. Three combinations are requested from a catalog of
  three backgrounds of weight 1. The first batch launches attempts with ids 1, 2, 3:
  the draws select Red, Red again (a duplicate, discarded) and Blue. The second batch
  launches one attempt with id \<^verbatim>\<open>combinations.length + 0 + 1 = 3\<close>, which selects Green.
  The ids of the accepted combinations are 1, 3, 3: the second one does not carry id 2,
  and the ids do not strictly increase.
\<close>

theorem generateCombinations_ids_from_launch:
  "map id' (combinations (fst (generateCombinations
      (scriptedDraws [[1/10], [1/10], [1/2], [9/10]]) 3
      ([], newTraitSelector (plainConfig [''bg''])
             (validatedLayers [(''bg'', [leaf ''Red'' 1, leaf ''Blue'' 1, leaf ''Green'' 1])])))))
   = [1, 3, 3]"
  by code_simp

section \<open>Dependent traits\<close>

text \<open>
  Claim C3, evaluated on the code. The rule \<^verbatim>\<open>"bg:Red" -> "body:Robot"\<close> is configured, Red
  is selected for bg, and Robot is not selected yet when body is processed; the attempt
  nevertheless returns Red with Human. \<^verbatim>\<open>applyDependentTraits\<close> resolves Robot and pushes it
  onto the array \<^verbatim>\<open>getAvailableTraits\<close> returned, which the inner declaration also names
  \<^verbatim>\<open>dependentTraits\<close>; the list it returns is empty (lemma \<open>applyDependentTraits_props\<close>).
\<close>

theorem dependent_trait_not_appended:
  "(case fst (generateSingleCombination (scriptedDraws [[1/2]] 0) 1
      ([], newTraitSelector
         ((plainConfig [''bg'', ''body''])
            \<lparr>dependent_traits := Some [(''bg:Red'', ''body:Robot'')]\<rparr>)
         (validatedLayers [(''bg'', [leaf ''Red'' 1]),
                           (''body'', [leaf ''Robot'' 1, leaf ''Human'' 1])]))) of
      Inr c \<Rightarrow> map name (traits c)
    | Inl e \<Rightarrow> [])
   = [''Red'', ''Human'']"
  by code_simp

text \<open>
  Claim C9, evaluated on the code, same configuration. The layer processor builds the
  list Robot, Human for body and both caches refer to that array, at address 1. After
  one attempt the array holds Robot, Human, Robot; after a second attempt Robot, Human,
  Robot, Robot: each attempt that resolves the dependent trait appends to the cached
  list of its category. The traits a list holds, and their weights, stay the same
  (lemma \<open>generateSingleCombination_heapExtends\<close>); the list itself does not.
\<close>

theorem dependent_trait_pushed_to_catalog:
  "map name (collectLeafTraits [leaf ''Robot'' 1, leaf ''Human'' 1] ''body'') = [''Robot'', ''Human'']
   \<and> (let st1 = snd (generateSingleCombination (scriptedDraws [[1/2]] 0) 1
           ([], newTraitSelector
              ((plainConfig [''bg'', ''body''])
                 \<lparr>dependent_traits := Some [(''bg:Red'', ''body:Robot'')]\<rparr>)
              (validatedLayers [(''bg'', [leaf ''Red'' 1]),
                                (''body'', [leaf ''Robot'' 1, leaf ''Human'' 1])])));
            st2 = snd (generateSingleCombination (scriptedDraws [[1/2]] 0) 2 st1)
        in (traitCache (snd st1) ''body'',
            LayerProcessor.traitCache (layerProcessor (snd st1)) ''body'',
            map name (fst st1 ! 1),
            traitCache (snd st2) ''body'',
            map name (fst st2 ! 1)))
       = (Some 1, Some 1, [''Robot'', ''Human'', ''Robot''],
          Some 1, [''Robot'', ''Human'', ''Robot'', ''Robot''])"
  by code_simp

end
